theory Spec2Isabelle
  imports Main "HOL-Library.Sublist" "HOL-Library.AList"
begin

section \<open>Strings and POSIX paths\<close>

text \<open>
  JavaScript strings are modelled as \<open>string\<close>. \<open>s.startsWith(t)\<close> is \<open>prefix t s\<close>,
  \<open>s.endsWith(t)\<close> is \<open>suffix t s\<close> and \<open>s.includes(t)\<close> is \<open>sublist t s\<close> (a contiguous
  run). The path functions are those of Node's \<open>path\<close> module on POSIX, where
  \<open>path.sep\<close> is the slash.
\<close>

definition sep :: string where
  "sep = ''/''"

definition bslash :: char where
  "bslash = CHR 0x5C"

text \<open>Splitting at every slash, as \<open>s.split("/")\<close> does: empty pieces are kept.\<close>

fun split_sep :: "string \<Rightarrow> string list" where
  "split_sep [] = [[]]"
| "split_sep (c # cs) =
     (if c = CHR ''/'' then [] # split_sep cs
      else (case split_sep cs of [] \<Rightarrow> [[c]] | s # ss \<Rightarrow> (c # s) # ss))"

fun join_sep :: "string list \<Rightarrow> string" where
  "join_sep [] = []"
| "join_sep [s] = s"
| "join_sep (s # t # ss) = s @ ''/'' @ join_sep (t # ss)"

text \<open>
  \<open>normalizeString\<close> of Node's path module for an absolute path: empty and \<open>.\<close>
  segments vanish, \<open>..\<close> removes the segment before it (and is dropped at the root).
  The first argument is the stack of segments kept so far, last one first.
\<close>

fun normalize_segs :: "string list \<Rightarrow> string list \<Rightarrow> string list" where
  "normalize_segs acc [] = rev acc"
| "normalize_segs acc (s # ss) =
     (if s = [] \<or> s = ''.'' then normalize_segs acc ss
      else if s = ''..'' then normalize_segs (tl acc) ss
      else normalize_segs (s # acc) ss)"

definition is_absolute :: "string \<Rightarrow> bool" where
  "is_absolute p = (case p of [] \<Rightarrow> False | c # _ \<Rightarrow> c = CHR ''/'')"

text \<open>
  \<open>path.resolve(base, p)\<close> for an absolute \<open>base\<close>: an absolute \<open>p\<close> replaces the
  base, an empty \<open>p\<close> is skipped, any other \<open>p\<close> is appended; the result is normalised
  and has no trailing slash. Every base passed in this development is itself a result
  of \<open>path_resolve\<close> or of \<open>dirname\<close>, hence absolute, so the fall-back of
  \<open>path.resolve\<close> to the working directory is never reached.
\<close>

definition path_resolve :: "string \<Rightarrow> string \<Rightarrow> string" where
  "path_resolve base p =
     ''/'' @ join_sep (normalize_segs []
        (split_sep (if is_absolute p then p else if p = [] then base else base @ ''/'' @ p)))"

text \<open>\<open>path.dirname\<close> of a normalised absolute path.\<close>

definition dirname :: "string \<Rightarrow> string" where
  "dirname p =
     (let d = rev (tl (dropWhile (\<lambda>c. c \<noteq> CHR ''/'') (rev p)))
      in if d = [] then ''/'' else d)"

text \<open>\<open>path.join(a, name)\<close> for a directory path and an entry name.\<close>

definition path_join :: "string \<Rightarrow> string \<Rightarrow> string" where
  "path_join a name = ''/'' @ join_sep (normalize_segs [] (split_sep (a @ ''/'' @ name)))"

text \<open>ASCII case folding, which is what the \<open>i\<close> flag of a JavaScript regular
  expression amounts to for a pattern of ASCII letters.\<close>

definition to_lower :: "char \<Rightarrow> char" where
  "to_lower c =
     (case map_of (zip ''ABCDEFGHIJKLMNOPQRSTUVWXYZ'' ''abcdefghijklmnopqrstuvwxyz'') c of
        None \<Rightarrow> c | Some d \<Rightarrow> d)"

section \<open>The filesystem\<close>

text \<open>
  The filesystem is a tree. A regular file has a content and a modification time (in
  milliseconds), a directory has a modification time and named entries, a symbolic link
  has the target text that \<open>readlinkSync\<close> returns.
\<close>

datatype node =
    File (file_content: string) (file_mtime: int)
  | Dir (dir_mtime: int) (dir_entries: "(string \<times> node) list")
  | Symlink (link_target: string)

text \<open>Looking a canonical path (a list of names below the root) up, following no link.\<close>

fun tree_lookup :: "node \<Rightarrow> string list \<Rightarrow> node option" where
  "tree_lookup n [] = Some n"
| "tree_lookup (Dir m es) (s # ss) =
     (case map_of es s of None \<Rightarrow> None | Some c \<Rightarrow> tree_lookup c ss)"
| "tree_lookup (File c m) (s # ss) = None"
| "tree_lookup (Symlink t) (s # ss) = None"

text \<open>
  Path resolution as the operating system does it for \<open>stat\<close> (\<open>follow\<close>) and
  \<open>lstat\<close> (not \<open>follow\<close>): the walk starts at the root, a symbolic link met on the
  way is replaced by its target, absolute or relative to the directory that holds the
  link, and each replacement uses up one of \<open>hops\<close>; with none left the resolution
  fails (ELOOP), as it fails on a missing directory (ENOENT) and on a file used as a
  directory (ENOTDIR). The result is the canonical path together with the node found
  there, or with \<open>None\<close> when only the last name is missing from an existing
  directory (the place where a new entry would be created).
\<close>

fun namei :: "nat \<Rightarrow> node \<Rightarrow> bool \<Rightarrow> string list \<Rightarrow> string list
                \<Rightarrow> (string list \<times> node option) option" where
  "namei hops root follow cur [] = Some (cur, tree_lookup root cur)"
| "namei hops root follow cur (s # rest) =
     (if s = [] \<or> s = ''.'' then namei hops root follow cur rest
      else if s = ''..'' then namei hops root follow (butlast cur) rest
      else (case tree_lookup root (cur @ [s]) of
              None \<Rightarrow> if rest = [] then Some (cur @ [s], None) else None
            | Some (File c m) \<Rightarrow> if rest = [] then Some (cur @ [s], Some (File c m)) else None
            | Some (Dir m es) \<Rightarrow> namei hops root follow (cur @ [s]) rest
            | Some (Symlink t) \<Rightarrow>
                if rest = [] \<and> \<not> follow then Some (cur @ [s], Some (Symlink t))
                else (case hops of
                        0 \<Rightarrow> None
                      | Suc h \<Rightarrow> namei h root follow (if is_absolute t then [] else cur)
                                   (split_sep t @ rest))))"

text \<open>Linux follows at most 40 symbolic links in one resolution.\<close>

definition SYMLOOP_MAX :: nat where
  "SYMLOOP_MAX = 40"

definition statSync :: "node \<Rightarrow> string \<Rightarrow> node option" where
  "statSync fs p =
     (case namei SYMLOOP_MAX fs True [] (split_sep p) of
        Some (cp, Some n) \<Rightarrow> Some n | _ \<Rightarrow> None)"

definition lstatSync :: "node \<Rightarrow> string \<Rightarrow> node option" where
  "lstatSync fs p =
     (case namei SYMLOOP_MAX fs False [] (split_sep p) of
        Some (cp, Some n) \<Rightarrow> Some n | _ \<Rightarrow> None)"

text \<open>\<open>fs.existsSync\<close> follows symbolic links: a dangling link, a cycle of links or a
  chain longer than the limit does not exist.\<close>

definition existsSync :: "node \<Rightarrow> string \<Rightarrow> bool" where
  "existsSync fs p = (statSync fs p \<noteq> None)"

definition isDirectory :: "node \<Rightarrow> bool" where
  "isDirectory n = (case n of Dir m es \<Rightarrow> True | _ \<Rightarrow> False)"

section \<open>SecurityManager\<close>

datatype operation = Read | Write | Delete

text \<open>
  Every \<open>SecurityError\<close> that SecurityManager throws, named after the violation type it
  audits: \<open>workspace_escape\<close> ("Path traversal detected - path outside workspace"),
  \<open>path_traversal\<close> ("Path contains traversal sequences"), \<open>system_path_access\<close>,
  \<open>sensitive_file_access\<close>, \<open>subdirectory_restriction\<close>, \<open>blocked_path\<close>,
  \<open>blocked_pattern\<close>, the read-only rejection, \<open>symlink_escape\<close> (thrown by
  \<open>validateSymlink\<close> only), \<open>rate_limit\<close>, and the two size rejections.
\<close>

datatype rejection =
    WORKSPACE_ESCAPE | PATH_TRAVERSAL | SYSTEM_PATH | SENSITIVE_FILE | SUBDIR_RESTRICTION
  | BLOCKED_PATH | BLOCKED_PATTERN | READ_ONLY | SYMLINK_ESCAPE | RATE_LIMIT
  | FILE_SIZE | BATCH_SIZE

text \<open>
  \<open>SecurityConfig\<close>, as far as SecurityManager reads it. A blocked pattern is given
  by the test of the regular expression that \<open>globToRegex\<close> compiles it to.
\<close>

record security_config =
  cfg_workspaceRoot :: string
  cfg_allowedSubdirectories :: "string list"
  cfg_blockedPaths :: "string list"
  cfg_blockedPatterns :: "(string \<Rightarrow> bool) list"
  maxFileSize :: int
  maxBatchSize :: int
  maxOperationsPerMinute :: int
  enableAuditLog :: bool
  readOnly :: bool

record security_manager =
  workspaceRoot :: string
  allowedSubdirectories :: "string list option"
  blockedPaths :: "string list"
  blockedPatterns :: "(string \<Rightarrow> bool) list"
  operationCount :: "string \<rightharpoonup> int list"
  config :: security_config
  emergencyMode :: bool

definition SYSTEM_PATHS :: "string list" where
  "SYSTEM_PATHS =
     [''/etc'', ''/sys'', ''/proc'', ''/dev'', ''/boot'', ''/root'',
      ''C:'' @ [bslash] @ ''Windows'',
      ''C:'' @ [bslash] @ ''Program Files'',
      ''C:'' @ [bslash] @ ''Program Files (x86)'',
      ''/System'', ''/Library'', ''/Applications'',
      ''/bin'', ''/sbin'', ''/usr/bin'', ''/usr/sbin'']"

text \<open>
  The twelve regular expressions of \<open>SENSITIVE_PATTERNS\<close>, each as its \<open>test\<close>:
  a literal matches anywhere, a literal before \<open>$\<close> matches at the end of the path,
  and the flag \<open>i\<close> compares without regard to ASCII case.
\<close>

definition SENSITIVE_PATTERNS :: "(string \<Rightarrow> bool) list" where
  "SENSITIVE_PATTERNS =
     [sublist ''.ssh/'', sublist ''.aws/'', sublist ''.kube/'', sublist ''id_rsa'',
      suffix ''.pem'', suffix ''.key'', suffix ''.p12'', suffix ''.pfx'',
      (\<lambda>s. sublist ''password'' (map to_lower s)),
      (\<lambda>s. sublist ''secret'' (map to_lower s)),
      (\<lambda>s. sublist ''token'' (map to_lower s)),
      suffix ''.env'']"

datatype ctor_error = ROOT_MISSING | ROOT_NOT_DIRECTORY

text \<open>The constructor; \<open>cwd\<close> is the working directory of the process.\<close>

definition newSecurityManager ::
    "node \<Rightarrow> string \<Rightarrow> security_config \<Rightarrow> ctor_error + security_manager" where
  "newSecurityManager fs cwd cfg =
     (let root = path_resolve cwd (cfg_workspaceRoot cfg) in
      if \<not> existsSync fs root then Inl ROOT_MISSING
      else (case statSync fs root of
              Some (Dir m es) \<Rightarrow>
                Inr \<lparr> workspaceRoot = root,
                      allowedSubdirectories =
                        (if cfg_allowedSubdirectories cfg \<noteq> []
                         then Some (map (path_resolve root) (cfg_allowedSubdirectories cfg))
                         else None),
                      blockedPaths = map (path_resolve root) (cfg_blockedPaths cfg),
                      blockedPatterns = cfg_blockedPatterns cfg,
                      operationCount = Map.empty,
                      config = cfg,
                      emergencyMode = False \<rparr>
            | _ \<Rightarrow> Inl ROOT_NOT_DIRECTORY))"

text \<open>
  \<open>validatePath\<close>, layer by layer in the order of the source. The result \<open>None\<close>
  stands for a call that does not return: the recursion on the target of a symbolic
  link has no counter.
\<close>

partial_function (option) validatePath ::
    "security_manager \<Rightarrow> node \<Rightarrow> string \<Rightarrow> operation \<Rightarrow> (rejection + string) option" where
  "validatePath sm fs filePath operation =
     (let resolved = path_resolve (workspaceRoot sm) filePath in
      if \<not> prefix (workspaceRoot sm @ sep) resolved \<and> resolved \<noteq> workspaceRoot sm
        then Some (Inl WORKSPACE_ESCAPE)
      else if sublist ''..'' filePath \<or> sublist ''./'' filePath
              \<or> sublist [CHR ''.'', bslash] filePath
        then Some (Inl PATH_TRAVERSAL)
      else if list_ex (\<lambda>systemPath. prefix systemPath resolved) SYSTEM_PATHS
        then Some (Inl SYSTEM_PATH)
      else if list_ex (\<lambda>pattern. pattern resolved) SENSITIVE_PATTERNS
        then Some (Inl SENSITIVE_FILE)
      else if (case allowedSubdirectories sm of
                 None \<Rightarrow> False
               | Some allowedSet \<Rightarrow> allowedSet \<noteq> [] \<and>
                   \<not> list_ex (\<lambda>allowed. prefix (allowed @ sep) resolved \<or> resolved = allowed)
                        allowedSet)
        then Some (Inl SUBDIR_RESTRICTION)
      else if list_ex (\<lambda>blocked. prefix blocked resolved) (blockedPaths sm)
        then Some (Inl BLOCKED_PATH)
      else if list_ex (\<lambda>pattern. pattern resolved) (blockedPatterns sm)
        then Some (Inl BLOCKED_PATTERN)
      else if readOnly (config sm) \<and> (operation = Write \<or> operation = Delete)
        then Some (Inl READ_ONLY)
      else if existsSync fs resolved
        then (case lstatSync fs resolved of
                Some (Symlink target) \<Rightarrow>
                  Option.bind
                    (validatePath sm fs (path_resolve (dirname resolved) target) operation)
                    (\<lambda>r. case r of Inl e \<Rightarrow> Some (Inl e) | Inr v \<Rightarrow> Some (Inr resolved))
              | _ \<Rightarrow> Some (Inr resolved))
      else Some (Inr resolved))"

declare validatePath.simps [code]

text \<open>\<open>validateSymlink\<close>; \<open>None\<close> when one of its \<open>validatePath\<close> calls does not
  return.\<close>

definition validateSymlink ::
    "security_manager \<Rightarrow> node \<Rightarrow> string \<Rightarrow> string \<Rightarrow> (rejection + unit) option" where
  "validateSymlink sm fs linkPath targetPath =
     (case validatePath sm fs linkPath Write of
        None \<Rightarrow> None
      | Some (Inl r) \<Rightarrow> Some (Inl r)
      | Some (Inr resolvedLink) \<Rightarrow>
          (let resolvedTarget = path_resolve (dirname resolvedLink) targetPath in
           if \<not> prefix (workspaceRoot sm @ sep) resolvedTarget then Some (Inl SYMLINK_ESCAPE)
           else (case validatePath sm fs resolvedTarget Read of
                   None \<Rightarrow> None
                 | Some (Inl r) \<Rightarrow> Some (Inl r)
                 | Some (Inr v) \<Rightarrow> Some (Inr ()))))"

definition emergencyStop :: "security_manager \<Rightarrow> security_manager" where
  "emergencyStop sm = sm\<lparr>emergencyMode := True\<rparr>"

definition resumeOperations :: "security_manager \<Rightarrow> security_manager" where
  "resumeOperations sm = sm\<lparr>emergencyMode := False\<rparr>"

definition isEmergencyMode :: "security_manager \<Rightarrow> bool" where
  "isEmergencyMode sm = emergencyMode sm"

text \<open>\<open>checkRateLimit\<close>; \<open>now\<close> is the reading of \<open>Date.now()\<close>.\<close>

definition checkRateLimit ::
    "security_manager \<Rightarrow> string \<Rightarrow> int \<Rightarrow> rejection + security_manager" where
  "checkRateLimit sm agentId now =
     (let ops = (case operationCount sm agentId of None \<Rightarrow> [] | Some l \<Rightarrow> l);
          recent = filter (\<lambda>t. now - t < 60000) ops
      in if int (length recent) \<ge> maxOperationsPerMinute (config sm) then Inl RATE_LIMIT
         else Inr (sm\<lparr>operationCount := (operationCount sm)(agentId \<mapsto> recent @ [now])\<rparr>))"

definition validateFileSize :: "security_manager \<Rightarrow> int \<Rightarrow> rejection + unit" where
  "validateFileSize sm sz = (if sz > maxFileSize (config sm) then Inl FILE_SIZE else Inr ())"

definition validateBatchSize :: "security_manager \<Rightarrow> int \<Rightarrow> nat \<Rightarrow> rejection + unit" where
  "validateBatchSize sm totalSize nOperations =
     (if totalSize > maxBatchSize (config sm) then Inl BATCH_SIZE else Inr ())"

text \<open>A run of \<open>checkRateLimit\<close> calls of one agent, stopping at the first rejection.\<close>

fun checkRateLimit_calls ::
    "security_manager \<Rightarrow> string \<Rightarrow> int list \<Rightarrow> rejection + security_manager" where
  "checkRateLimit_calls sm agentId [] = Inr sm"
| "checkRateLimit_calls sm agentId (now # later) =
     (case checkRateLimit sm agentId now of
        Inl e \<Rightarrow> Inl e
      | Inr sm' \<Rightarrow> checkRateLimit_calls sm' agentId later)"

text \<open>The timestamps recorded for an agent.\<close>

definition recorded :: "security_manager \<Rightarrow> string \<Rightarrow> int list" where
  "recorded sm agentId = (case operationCount sm agentId of None \<Rightarrow> [] | Some l \<Rightarrow> l)"

subsection \<open>A workspace used in the examples\<close>

definition example_config :: security_config where
  "example_config =
     \<lparr> cfg_workspaceRoot = ''/ws'', cfg_allowedSubdirectories = [], cfg_blockedPaths = [],
       cfg_blockedPatterns = [], maxFileSize = 104857600, maxBatchSize = 1073741824,
       maxOperationsPerMinute = 2, enableAuditLog = True, readOnly = False \<rparr>"

definition example_fs :: node where
  "example_fs =
     Dir 0 [(''ws'', Dir 0 [(''a.txt'', File ''alpha'' 10), (''b.txt'', File ''beta'' 20)]),
            (''etc'', Dir 0 [(''passwd'', File ''root'' 0)])]"

definition example_manager :: security_manager where
  "example_manager =
     \<lparr> workspaceRoot = ''/ws'', allowedSubdirectories = None, blockedPaths = [],
       blockedPatterns = [], operationCount = Map.empty, config = example_config,
       emergencyMode = False \<rparr>"

text \<open>
  A workspace in which a directory is reached through a symbolic link: \<open>/ws/d\<close> points
  to the directory \<open>/ws/x/y\<close>, the link \<open>/ws/x/y/l\<close> points to \<open>../f\<close> (the file
  \<open>/ws/x/f\<close>), and \<open>/ws/f\<close> points to \<open>d/l\<close>.
\<close>

definition linked_fs :: node where
  "linked_fs =
     Dir 0 [(''ws'', Dir 0
        [(''x'', Dir 0 [(''y'', Dir 0 [(''l'', Symlink ''../f'')]), (''f'', File ''data'' 0)]),
         (''d'', Symlink ''x/y''),
         (''f'', Symlink ''d/l'')])]"

section \<open>DirectoryWatcher\<close>

datatype event_type = EvCreate | EvModify | EvDelete | EvRename

record file_system_event =
  ev_type :: event_type
  ev_path :: string
  ev_timestamp :: int
  ev_oldPath :: "string option"

text \<open>
  JavaScript arrays are objects: the event buffer of a session is a reference into a store
  of arrays, so that a copy of a buffer and the buffer itself are told apart.
\<close>

type_synonym array_ref = nat

record watch_session =
  ws_id :: string
  ws_path :: string
  ws_recursive :: bool
  ws_filters :: "string list"
  ws_events :: array_ref

record watch_options =
  opt_recursive :: bool
  opt_filters :: "string list option"

text \<open>The chokidar watcher of a session: the directory it watches and its depth option.\<close>

record fs_watcher =
  fw_path :: string
  fw_depth :: "nat option"

text \<open>
  The two maps of the class are JavaScript \<open>Map\<close>s, which keep their keys in insertion
  order: association lists, with \<open>AList.update\<close> for \<open>set\<close> and \<open>AList.delete\<close> for
  \<open>delete\<close>.
\<close>

record directory_watcher =
  watchers :: "(string \<times> fs_watcher) list"
  sessions :: "(string \<times> watch_session) list"
  arrays :: "array_ref \<rightharpoonup> file_system_event list"
  next_ref :: array_ref

definition new_directory_watcher :: directory_watcher where
  "new_directory_watcher = \<lparr> watchers = [], sessions = [], arrays = Map.empty, next_ref = 0 \<rparr>"

datatype watch_error =
    SESSION_EXISTS | NOT_A_DIRECTORY | DIRECTORY_NOT_FOUND | PERMISSION_DENIED | STAT_ERROR
  | WATCHER_INIT_FAILED | WATCHER_CLOSE_ERROR | SESSION_NOT_FOUND | STOP_FAILED
  | STOP_ALL_FAILED nat

text \<open>What the environment answers: \<open>fs.statSync\<close> on the directory, the watcher's
  initialisation (\<open>ready\<close>, \<open>error\<close>, or neither within five seconds), and whether
  \<open>watcher.close()\<close> resolves.\<close>

datatype stat_outcome = StatNode node | StatENOENT | StatEACCES | OtherStatError

datatype init_outcome = Ready | InitError | InitTimeout

definition new_array ::
    "directory_watcher \<Rightarrow> file_system_event list \<Rightarrow> array_ref \<times> directory_watcher" where
  "new_array dw es =
     (next_ref dw, dw\<lparr>arrays := (arrays dw)(next_ref dw \<mapsto> es), next_ref := Suc (next_ref dw)\<rparr>)"

definition array_contents :: "directory_watcher \<Rightarrow> array_ref \<Rightarrow> file_system_event list" where
  "array_contents dw r = (case arrays dw r of None \<Rightarrow> [] | Some es \<Rightarrow> es)"

definition watch ::
    "directory_watcher \<Rightarrow> string \<Rightarrow> string \<Rightarrow> watch_options \<Rightarrow> stat_outcome \<Rightarrow> init_outcome
       \<Rightarrow> bool \<Rightarrow> (watch_error + unit) \<times> directory_watcher" where
  "watch dw sessionId dirPath options stat init close_ok =
     (if map_of (sessions dw) sessionId \<noteq> None then (Inl SESSION_EXISTS, dw)
      else (case stat of
              StatENOENT \<Rightarrow> (Inl DIRECTORY_NOT_FOUND, dw)
            | StatEACCES \<Rightarrow> (Inl PERMISSION_DENIED, dw)
            | OtherStatError \<Rightarrow> (Inl STAT_ERROR, dw)
            | StatNode stats \<Rightarrow>
                if \<not> isDirectory stats then (Inl NOT_A_DIRECTORY, dw)
                else
                  (let (r, dw1) = new_array dw [];
                       session = \<lparr> ws_id = sessionId, ws_path = dirPath,
                                   ws_recursive = opt_recursive options,
                                   ws_filters = (case opt_filters options of
                                                   None \<Rightarrow> [] | Some fs \<Rightarrow> fs),
                                   ws_events = r \<rparr>;
                       watcher = \<lparr> fw_path = dirPath,
                                   fw_depth = (if opt_recursive options then None else Some 0) \<rparr>;
                       dw2 = dw1\<lparr>watchers := AList.update sessionId watcher (watchers dw1),
                                 sessions := AList.update sessionId session (sessions dw1)\<rparr>
                   in case init of
                        Ready \<Rightarrow> (Inr (), dw2)
                      | _ \<Rightarrow>
                          if close_ok
                          then (Inl WATCHER_INIT_FAILED,
                                dw2\<lparr>watchers := AList.delete sessionId (watchers dw2),
                                    sessions := AList.delete sessionId (sessions dw2)\<rparr>)
                          else (Inl WATCHER_CLOSE_ERROR, dw2))))"

text \<open>\<open>minimatch\<close> is the glob matcher of the library of that name.\<close>

definition shouldIncludeEvent :: "(string \<Rightarrow> string \<Rightarrow> bool) \<Rightarrow> string \<Rightarrow> string list \<Rightarrow> bool" where
  "shouldIncludeEvent minimatch filePath filters =
     (filters = [] \<or> list_ex (\<lambda>filter. minimatch filePath filter) filters)"

definition recordEvent ::
    "directory_watcher \<Rightarrow> (string \<Rightarrow> string \<Rightarrow> bool) \<Rightarrow> string \<Rightarrow> event_type \<Rightarrow> string
       \<Rightarrow> string option \<Rightarrow> int \<Rightarrow> directory_watcher" where
  "recordEvent dw minimatch sessionId type filePath oldPath now =
     (case map_of (sessions dw) sessionId of
        None \<Rightarrow> dw
      | Some session \<Rightarrow>
          if \<not> shouldIncludeEvent minimatch filePath (ws_filters session) then dw
          else
            (let event = \<lparr> ev_type = type, ev_path = filePath, ev_timestamp = now,
                           ev_oldPath = (case oldPath of
                                           None \<Rightarrow> None
                                         | Some p \<Rightarrow> if p = [] then None else Some p) \<rparr>
             in dw\<lparr>arrays := (arrays dw)(ws_events session \<mapsto>
                                   array_contents dw (ws_events session) @ [event])\<rparr>))"

definition getEvents ::
    "directory_watcher \<Rightarrow> string \<Rightarrow> (watch_error + array_ref) \<times> directory_watcher" where
  "getEvents dw sessionId =
     (case map_of (sessions dw) sessionId of
        None \<Rightarrow> (Inl SESSION_NOT_FOUND, dw)
      | Some session \<Rightarrow>
          (let (r, dw') = new_array dw (array_contents dw (ws_events session))
           in (Inr r, dw')))"

definition clearEvents ::
    "directory_watcher \<Rightarrow> string \<Rightarrow> (watch_error + unit) \<times> directory_watcher" where
  "clearEvents dw sessionId =
     (case map_of (sessions dw) sessionId of
        None \<Rightarrow> (Inl SESSION_NOT_FOUND, dw)
      | Some session \<Rightarrow>
          (let (r, dw1) = new_array dw []
           in (Inr (), dw1\<lparr>sessions :=
                             AList.update sessionId (session\<lparr>ws_events := r\<rparr>) (sessions dw1)\<rparr>)))"

definition stopWatch ::
    "directory_watcher \<Rightarrow> string \<Rightarrow> bool \<Rightarrow> (watch_error + unit) \<times> directory_watcher" where
  "stopWatch dw sessionId close_ok =
     (case map_of (watchers dw) sessionId of
        None \<Rightarrow> (Inl SESSION_NOT_FOUND, dw)
      | Some watcher \<Rightarrow>
          (let dw' = dw\<lparr>watchers := AList.delete sessionId (watchers dw),
                         sessions := AList.delete sessionId (sessions dw)\<rparr>
           in if close_ok then (Inr (), dw') else (Inl STOP_FAILED, dw')))"

text \<open>\<open>closes\<close> tells for each session whether closing its watcher resolves.\<close>

definition stopAll ::
    "directory_watcher \<Rightarrow> (string \<Rightarrow> bool) \<Rightarrow> (watch_error + unit) \<times> directory_watcher" where
  "stopAll dw closes =
     (let errors = filter (\<lambda>(sessionId, watcher). \<not> closes sessionId) (watchers dw);
          dw' = dw\<lparr>watchers := [], sessions := []\<rparr>
      in if length errors > 0 then (Inl (STOP_ALL_FAILED (length errors)), dw')
         else (Inr (), dw'))"

text \<open>The calls that reach a DirectoryWatcher, and the state after a sequence of them.\<close>

datatype watcher_call =
    Watch string string watch_options stat_outcome init_outcome bool
  | RecordEvent "string \<Rightarrow> string \<Rightarrow> bool" string event_type string "string option" int
  | GetEvents string
  | ClearEvents string
  | StopWatch string bool
  | StopAll "string \<Rightarrow> bool"

fun perform :: "directory_watcher \<Rightarrow> watcher_call \<Rightarrow> directory_watcher" where
  "perform dw (Watch sessionId dirPath options stat init close_ok) =
     snd (watch dw sessionId dirPath options stat init close_ok)"
| "perform dw (RecordEvent minimatch sessionId type filePath oldPath now) =
     recordEvent dw minimatch sessionId type filePath oldPath now"
| "perform dw (GetEvents sessionId) = snd (getEvents dw sessionId)"
| "perform dw (ClearEvents sessionId) = snd (clearEvents dw sessionId)"
| "perform dw (StopWatch sessionId close_ok) = snd (stopWatch dw sessionId close_ok)"
| "perform dw (StopAll closes) = snd (stopAll dw closes)"

fun run_calls :: "directory_watcher \<Rightarrow> watcher_call list \<Rightarrow> directory_watcher" where
  "run_calls dw [] = dw"
| "run_calls dw (c # cs) = run_calls (perform dw c) cs"

text \<open>The events buffered for a session, if the session is live.\<close>

definition buffer :: "directory_watcher \<Rightarrow> string \<Rightarrow> file_system_event list option" where
  "buffer dw sessionId =
     map_option (\<lambda>session. array_contents dw (ws_events session)) (map_of (sessions dw) sessionId)"

text \<open>
  What holds of every DirectoryWatcher that calls can produce: the two maps list the same
  session ids in the same order, every buffer has been allocated, and no two sessions
  share a buffer.
\<close>

definition watcher_inv :: "directory_watcher \<Rightarrow> bool" where
  "watcher_inv dw =
     (map fst (watchers dw) = map fst (sessions dw)
      \<and> (\<forall>sid s. map_of (sessions dw) sid = Some s \<longrightarrow> ws_events s < next_ref dw)
      \<and> (\<forall>sid s sid' s'. map_of (sessions dw) sid = Some s \<and> map_of (sessions dw) sid' = Some s'
             \<and> ws_events s = ws_events s' \<longrightarrow> sid = sid'))"

text \<open>An array that has been allocated and is the buffer of no session.\<close>

definition detached :: "directory_watcher \<Rightarrow> array_ref \<Rightarrow> bool" where
  "detached dw r =
     (r < next_ref dw \<and> (\<forall>sid s. map_of (sessions dw) sid = Some s \<longrightarrow> ws_events s \<noteq> r))"

subsection \<open>A watch session used in the examples\<close>

definition example_options :: watch_options where
  "example_options = \<lparr> opt_recursive = True, opt_filters = None \<rparr>"

definition example_calls :: "watcher_call list" where
  "example_calls = [Watch ''s1'' ''/ws'' example_options (StatNode (Dir 0 [])) Ready True]"

definition example_event_calls :: "watcher_call list" where
  "example_event_calls =
     example_calls @ [RecordEvent (\<lambda>filePath filter. True) ''s1'' EvCreate ''/ws/new.txt'' None 5]"

definition example_session :: watch_session where
  "example_session =
     \<lparr> ws_id = ''s1'', ws_path = ''/ws'', ws_recursive = True, ws_filters = [], ws_events = 0 \<rparr>"

definition example_event :: file_system_event where
  "example_event =
     \<lparr> ev_type = EvCreate, ev_path = ''/ws/new.txt'', ev_timestamp = 5, ev_oldPath = None \<rparr>"

subsection \<open>The recursion of validatePath, one call at a time\<close>

text \<open>
  One call of \<open>validatePath\<close> either returns at once, with a rejection or with the
  resolved path, or it makes the recursive call on the target of a symbolic link and
  returns what that call decides. \<open>validatePath_step\<close> is the body of
  \<open>validatePath\<close> up to the recursive call.
\<close>

datatype vp_step = Return "rejection + string" | Follow string string

definition validatePath_step ::
    "security_manager \<Rightarrow> node \<Rightarrow> string \<Rightarrow> operation \<Rightarrow> vp_step" where
  "validatePath_step sm fs filePath operation =
     (let resolved = path_resolve (workspaceRoot sm) filePath in
      if \<not> prefix (workspaceRoot sm @ sep) resolved \<and> resolved \<noteq> workspaceRoot sm
        then Return (Inl WORKSPACE_ESCAPE)
      else if sublist ''..'' filePath \<or> sublist ''./'' filePath
              \<or> sublist [CHR ''.'', bslash] filePath
        then Return (Inl PATH_TRAVERSAL)
      else if list_ex (\<lambda>systemPath. prefix systemPath resolved) SYSTEM_PATHS
        then Return (Inl SYSTEM_PATH)
      else if list_ex (\<lambda>pattern. pattern resolved) SENSITIVE_PATTERNS
        then Return (Inl SENSITIVE_FILE)
      else if (case allowedSubdirectories sm of
                 None \<Rightarrow> False
               | Some allowedSet \<Rightarrow> allowedSet \<noteq> [] \<and>
                   \<not> list_ex (\<lambda>allowed. prefix (allowed @ sep) resolved \<or> resolved = allowed)
                        allowedSet)
        then Return (Inl SUBDIR_RESTRICTION)
      else if list_ex (\<lambda>blocked. prefix blocked resolved) (blockedPaths sm)
        then Return (Inl BLOCKED_PATH)
      else if list_ex (\<lambda>pattern. pattern resolved) (blockedPatterns sm)
        then Return (Inl BLOCKED_PATTERN)
      else if readOnly (config sm) \<and> (operation = Write \<or> operation = Delete)
        then Return (Inl READ_ONLY)
      else if existsSync fs resolved
        then (case lstatSync fs resolved of
                Some (Symlink target) \<Rightarrow> Follow resolved (path_resolve (dirname resolved) target)
              | _ \<Rightarrow> Return (Inr resolved))
      else Return (Inr resolved))"

text \<open>The result of \<open>validatePath\<close> when it needs at most \<open>n\<close> nested calls, and
  \<open>None\<close> when it needs more.\<close>

fun validatePath_within ::
    "nat \<Rightarrow> security_manager \<Rightarrow> node \<Rightarrow> string \<Rightarrow> operation \<Rightarrow> (rejection + string) option" where
  "validatePath_within 0 sm fs filePath operation = None"
| "validatePath_within (Suc n) sm fs filePath operation =
     (case validatePath_step sm fs filePath operation of
        Return r \<Rightarrow> Some r
      | Follow resolved next \<Rightarrow>
          Option.bind (validatePath_within n sm fs next operation)
            (\<lambda>r. case r of Inl e \<Rightarrow> Some (Inl e) | Inr v \<Rightarrow> Some (Inr resolved)))"

text \<open>A workspace with a cycle of two links, \<open>/ws/a\<close> to \<open>b\<close> and \<open>/ws/b\<close> to \<open>a\<close>.\<close>

definition cycle_fs :: node where
  "cycle_fs = Dir 0 [(''ws'', Dir 0 [(''a'', Symlink ''b''), (''b'', Symlink ''a'')])]"

section \<open>DirectoryOperations: recursiveSync\<close>

text \<open>
  \<open>recursiveSync\<close> reads the entries of the source directory and writes below the
  destination path. It is modelled for a source and a destination that do not overlap,
  on the source directory as \<open>readdirSync\<close> lists it (an entry that is a symbolic link is
  neither a file nor a directory for \<open>Dirent\<close>) and on the destination as \<open>stat\<close> sees
  it: a file or a directory, each with its modification time.
\<close>

datatype dnode =
    DFile string int
  | DDir int "(string \<times> dnode) list"

fun dmtime :: "dnode \<Rightarrow> int" where
  "dmtime (DFile c m) = m"
| "dmtime (DDir m es) = m"

datatype fs_error = ENOENT | ENOTDIR | EISDIR | ENOTEMPTY | EINVAL | ELOOP | EPERM

text \<open>The entry \<open>name\<close> below a destination node, and writing that entry: below a file
  there is nothing (\<open>existsSync\<close> is false there) and nothing can be created.\<close>

fun dchild :: "dnode \<Rightarrow> string \<Rightarrow> dnode option" where
  "dchild (DDir m es) name = map_of es name"
| "dchild (DFile c m) name = None"

fun dput :: "dnode \<Rightarrow> string \<Rightarrow> dnode \<Rightarrow> fs_error + dnode" where
  "dput (DDir m es) name c = Inr (DDir m (AList.update name c es))"
| "dput (DFile c' m) name c = Inl ENOTDIR"

record sync_result =
  filesCopied :: nat
  filesSkipped :: nat
  bytesTransferred :: nat

definition shouldExclude :: "string \<Rightarrow> (string \<Rightarrow> bool) list \<Rightarrow> bool" where
  "shouldExclude filePath patterns = list_ex (\<lambda>pattern. pattern filePath) patterns"

text \<open>
  \<open>clock k\<close> is the time at which the \<open>k\<close>-th write to the filesystem happens: a
  directory that \<open>mkdirSync\<close> creates and a file that \<open>copyFileSync\<close> writes get the
  modification time of their writing (sync preserves no metadata). The functions
  return the destination node, the counters and the number of writes so far.
  \<open>syncEntries\<close> is the loop over the entries of the source directory.
\<close>

function recursiveSync ::
    "(nat \<Rightarrow> int) \<Rightarrow> (string \<Rightarrow> bool) list \<Rightarrow> string \<Rightarrow> (string \<times> node) list
       \<Rightarrow> dnode option \<Rightarrow> nat \<Rightarrow> fs_error + dnode \<times> sync_result \<times> nat"
  and syncEntries ::
    "(nat \<Rightarrow> int) \<Rightarrow> (string \<Rightarrow> bool) list \<Rightarrow> string \<Rightarrow> (string \<times> node) list
       \<Rightarrow> dnode \<Rightarrow> sync_result \<Rightarrow> nat \<Rightarrow> fs_error + dnode \<times> sync_result \<times> nat"
  where
  "recursiveSync clock exclusionPatterns source srcEntries destination k =
     (case destination of
        None \<Rightarrow>
          syncEntries clock exclusionPatterns source srcEntries (DDir (clock k) [])
            \<lparr> filesCopied = 0, filesSkipped = 0, bytesTransferred = 0 \<rparr> (Suc k)
      | Some d \<Rightarrow>
          syncEntries clock exclusionPatterns source srcEntries d
            \<lparr> filesCopied = 0, filesSkipped = 0, bytesTransferred = 0 \<rparr> k)"
| "syncEntries clock exclusionPatterns source [] d acc k = Inr (d, acc, k)"
| "syncEntries clock exclusionPatterns source ((name, entry) # rest) d acc k =
     (if shouldExclude (path_join source name) exclusionPatterns
      then syncEntries clock exclusionPatterns source rest d acc k
      else
        (case entry of
           Dir dm sub \<Rightarrow>
             (case d of
                DFile c m \<Rightarrow> Inl ENOTDIR
              | DDir m es \<Rightarrow>
                  (case recursiveSync clock exclusionPatterns (path_join source name) sub
                          (map_of es name) k of
                     Inl e \<Rightarrow> Inl e
                   | Inr (c', res, k') \<Rightarrow>
                       syncEntries clock exclusionPatterns source rest
                         (DDir m (AList.update name c' es))
                         \<lparr> filesCopied = filesCopied acc + filesCopied res,
                           filesSkipped = filesSkipped acc + filesSkipped res,
                           bytesTransferred = bytesTransferred acc + bytesTransferred res \<rparr>
                         k'))
         | File content sm \<Rightarrow>
             (case dchild d name of
                Some (DFile c m) \<Rightarrow>
                  if sm \<le> m
                  then syncEntries clock exclusionPatterns source rest d
                         (acc\<lparr>filesSkipped := filesSkipped acc + 1\<rparr>) k
                  else
                    (case dput d name (DFile content (clock k)) of
                       Inl e \<Rightarrow> Inl e
                     | Inr d' \<Rightarrow>
                         syncEntries clock exclusionPatterns source rest d'
                           (acc\<lparr>filesCopied := filesCopied acc + 1,
                                bytesTransferred := bytesTransferred acc + length content\<rparr>)
                           (Suc k))
              | Some (DDir m es) \<Rightarrow>
                  if sm \<le> m
                  then syncEntries clock exclusionPatterns source rest d
                         (acc\<lparr>filesSkipped := filesSkipped acc + 1\<rparr>) k
                  else Inl EISDIR
              | None \<Rightarrow>
                  (case dput d name (DFile content (clock k)) of
                     Inl e \<Rightarrow> Inl e
                   | Inr d' \<Rightarrow>
                       syncEntries clock exclusionPatterns source rest d'
                         (acc\<lparr>filesCopied := filesCopied acc + 1,
                              bytesTransferred := bytesTransferred acc + length content\<rparr>)
                         (Suc k)))
         | Symlink t \<Rightarrow> syncEntries clock exclusionPatterns source rest d acc k))"
  by pat_completeness auto
termination
  by (relation "measure (\<lambda>x. case x of
         Inl (clock, pats, source, es, destination, k) \<Rightarrow>
           Suc (size_list (size_prod (\<lambda>s. 0) size) es)
       | Inr (clock, pats, source, es, d, acc, k) \<Rightarrow>
           size_list (size_prod (\<lambda>s. 0) size) es)")
    auto

text \<open>Within a directory, names are pairwise distinct.\<close>

fun distinct_names :: "(string \<times> node) list \<Rightarrow> bool"
  and distinct_names_node :: "node \<Rightarrow> bool" where
  "distinct_names [] = True"
| "distinct_names ((name, entry) # rest) =
     (name \<notin> fst ` set rest \<and> distinct_names_node entry \<and> distinct_names rest)"
| "distinct_names_node (Dir m es) = distinct_names es"
| "distinct_names_node (File c m) = True"
| "distinct_names_node (Symlink t) = True"

text \<open>No file below the entries has a modification time later than \<open>t\<close>.\<close>

fun mtimes_upto :: "int \<Rightarrow> (string \<times> node) list \<Rightarrow> bool"
  and mtimes_upto_node :: "int \<Rightarrow> node \<Rightarrow> bool" where
  "mtimes_upto t [] = True"
| "mtimes_upto t ((name, entry) # rest) = (mtimes_upto_node t entry \<and> mtimes_upto t rest)"
| "mtimes_upto_node t (Dir m es) = mtimes_upto t es"
| "mtimes_upto_node t (File c m) = (m \<le> t)"
| "mtimes_upto_node t (Symlink l) = True"

subsection \<open>A source directory used in the examples\<close>

definition example_source :: "(string \<times> node) list" where
  "example_source =
     [(''a.txt'', File ''alpha'' 100),
      (''sub'', Dir 0 [(''b.txt'', File ''beta'' 50)]),
      (''link'', Symlink ''a.txt'')]"

text \<open>A clock that reads 1000 at every write, and one that reads 60.\<close>

definition clock_1000 :: "nat \<Rightarrow> int" where
  "clock_1000 k = 1000"

definition clock_60 :: "nat \<Rightarrow> int" where
  "clock_60 k = 60"

text \<open>
  A destination node is up to date for the entries of a source directory when every
  entry that is not excluded has its counterpart: for a file, an entry of the same name
  that is not older; for a directory, an entry of the same name that is up to date for
  the entries of that directory.
\<close>

function up_to_date :: "(string \<Rightarrow> bool) list \<Rightarrow> string \<Rightarrow> (string \<times> node) list \<Rightarrow> dnode \<Rightarrow> bool"
  and up_to_date_entry :: "(string \<Rightarrow> bool) list \<Rightarrow> string \<Rightarrow> node \<Rightarrow> dnode option \<Rightarrow> bool"
  where
  "up_to_date pats source [] d = True"
| "up_to_date pats source ((name, entry) # rest) d =
     ((shouldExclude (path_join source name) pats
        \<or> up_to_date_entry pats (path_join source name) entry (dchild d name))
      \<and> up_to_date pats source rest d)"
| "up_to_date_entry pats p (File content sm) child =
     (case child of None \<Rightarrow> False | Some c \<Rightarrow> sm \<le> dmtime c)"
| "up_to_date_entry pats p (Dir dm sub) child =
     (case child of None \<Rightarrow> False | Some c \<Rightarrow> up_to_date pats p sub c)"
| "up_to_date_entry pats p (Symlink t) child = True"
  by pat_completeness auto
termination
  by (relation "measure (\<lambda>x. case x of
         Inl (pats, source, es, d) \<Rightarrow> size_list (size_prod (\<lambda>s. 0) size) es
       | Inr (pats, p, entry, child) \<Rightarrow> size entry)")
    auto

section \<open>BatchOperationManager\<close>

subsection \<open>The calls of Node's fs module that the batch operations make\<close>

text \<open>Replacing and removing the node at a canonical path, whose parent must be a
  directory of the tree.\<close>

fun tree_put :: "node \<Rightarrow> string list \<Rightarrow> node \<Rightarrow> node option" where
  "tree_put (Dir m es) [s] n = Some (Dir m (AList.update s n es))"
| "tree_put (Dir m es) (s # t # ss) n =
     (case map_of es s of
        None \<Rightarrow> None
      | Some c \<Rightarrow> (case tree_put c (t # ss) n of
                    None \<Rightarrow> None
                  | Some c' \<Rightarrow> Some (Dir m (AList.update s c' es))))"
| "tree_put root path n = None"

fun tree_del :: "node \<Rightarrow> string list \<Rightarrow> node option" where
  "tree_del (Dir m es) [s] = (if map_of es s = None then None else Some (Dir m (AList.delete s es)))"
| "tree_del (Dir m es) (s # t # ss) =
     (case map_of es s of
        None \<Rightarrow> None
      | Some c \<Rightarrow> (case tree_del c (t # ss) of
                    None \<Rightarrow> None
                  | Some c' \<Rightarrow> Some (Dir m (AList.update s c' es))))"
| "tree_del root path = None"

text \<open>The names of a validated path below the root.\<close>

definition path_segs :: "string \<Rightarrow> string list" where
  "path_segs p = filter (\<lambda>s. s \<noteq> []) (split_sep p)"

text \<open>\<open>fs.mkdirSync(p, {recursive: true})\<close> at time \<open>now\<close>: every missing directory on
  the way is created; a file on the way is an error.\<close>

fun mkdir_segs :: "node \<Rightarrow> int \<Rightarrow> string list \<Rightarrow> string list \<Rightarrow> fs_error + node" where
  "mkdir_segs fs now cur [] = Inr fs"
| "mkdir_segs fs now cur (s # rest) =
     (case namei SYMLOOP_MAX fs True cur [s] of
        None \<Rightarrow> Inl ENOENT
      | Some (cp, None) \<Rightarrow>
          (case tree_put fs cp (Dir now []) of
             None \<Rightarrow> Inl ENOENT
           | Some fs' \<Rightarrow> mkdir_segs fs' now cp rest)
      | Some (cp, Some (Dir m es)) \<Rightarrow> mkdir_segs fs now cp rest
      | Some (cp, Some other) \<Rightarrow> Inl ENOTDIR)"

definition mkdirSync :: "node \<Rightarrow> string \<Rightarrow> int \<Rightarrow> fs_error + node" where
  "mkdirSync fs p now = mkdir_segs fs now [] (path_segs p)"

text \<open>\<open>fs.copyFileSync(src, dest)\<close> at time \<open>now\<close>. Both paths are followed through
  symbolic links; the source must be a regular file, the destination must not be a
  directory and is created in an existing directory or overwritten.\<close>

definition copyFileSync :: "node \<Rightarrow> string \<Rightarrow> string \<Rightarrow> int \<Rightarrow> fs_error + node" where
  "copyFileSync fs src dest now =
     (case statSync fs src of
        None \<Rightarrow> Inl ENOENT
      | Some (Dir m es) \<Rightarrow> Inl EISDIR
      | Some (Symlink t) \<Rightarrow> Inl ELOOP
      | Some (File c m) \<Rightarrow>
          (case namei SYMLOOP_MAX fs True [] (split_sep dest) of
             None \<Rightarrow> Inl ENOENT
           | Some (cp, Some (Dir m' es)) \<Rightarrow> Inl EISDIR
           | Some (cp, other) \<Rightarrow>
               (case tree_put fs cp (File c now) of
                  None \<Rightarrow> Inl ENOENT
                | Some fs' \<Rightarrow> Inr fs')))"

text \<open>\<open>fs.renameSync(a, b)\<close>: neither path is followed at its last name. A directory
  replaces only an empty directory, anything else replaces only what is not a directory,
  and nothing moves below itself.\<close>

definition renameSync :: "node \<Rightarrow> string \<Rightarrow> string \<Rightarrow> fs_error + node" where
  "renameSync fs a b =
     (case namei SYMLOOP_MAX fs False [] (split_sep a) of
        Some (ca, Some n) \<Rightarrow>
          (case namei SYMLOOP_MAX fs False [] (split_sep b) of
             None \<Rightarrow> Inl ENOENT
           | Some (cb, existing) \<Rightarrow>
               if ca = cb then Inr fs
               else if prefix ca cb then Inl EINVAL
               else
                 (case (if isDirectory n
                        then (case existing of
                                None \<Rightarrow> None
                              | Some (Dir m es) \<Rightarrow> if es = [] then None else Some ENOTEMPTY
                              | Some other \<Rightarrow> Some ENOTDIR)
                        else (case existing of
                                Some (Dir m es) \<Rightarrow> Some EISDIR
                              | other \<Rightarrow> None)) of
                    Some e \<Rightarrow> Inl e
                  | None \<Rightarrow>
                      (case tree_del fs ca of
                         None \<Rightarrow> Inl EINVAL
                       | Some fs1 \<Rightarrow>
                           (case tree_put fs1 cb n of
                              None \<Rightarrow> Inl ENOENT
                            | Some fs2 \<Rightarrow> Inr fs2))))
      | other \<Rightarrow> Inl ENOENT)"

text \<open>\<open>fs.unlinkSync(p)\<close> removes what is not a directory.\<close>

definition unlinkSync :: "node \<Rightarrow> string \<Rightarrow> fs_error + node" where
  "unlinkSync fs p =
     (case namei SYMLOOP_MAX fs False [] (split_sep p) of
        Some (cp, Some (Dir m es)) \<Rightarrow> Inl EISDIR
      | Some (cp, Some n) \<Rightarrow>
          (case tree_del fs cp of None \<Rightarrow> Inl EPERM | Some fs' \<Rightarrow> Inr fs')
      | other \<Rightarrow> Inl ENOENT)"

text \<open>\<open>fs.rmSync(p, {recursive: true, force: true})\<close> removes a whole subtree and
  accepts a missing path.\<close>

definition rmSync :: "node \<Rightarrow> string \<Rightarrow> fs_error + node" where
  "rmSync fs p =
     (case namei SYMLOOP_MAX fs False [] (split_sep p) of
        Some (cp, Some n) \<Rightarrow>
          (case tree_del fs cp of None \<Rightarrow> Inl EPERM | Some fs' \<Rightarrow> Inr fs')
      | other \<Rightarrow> Inr fs)"

text \<open>\<open>fs.readdirSync(p, {withFileTypes: true})\<close>: the entries of a directory, each
  with the type that \<open>lstat\<close> gives it.\<close>

definition readdirSync :: "node \<Rightarrow> string \<Rightarrow> fs_error + (string \<times> node) list" where
  "readdirSync fs p =
     (case statSync fs p of
        None \<Rightarrow> Inl ENOENT
      | Some (Dir m es) \<Rightarrow> Inr es
      | Some other \<Rightarrow> Inl ENOTDIR)"

text \<open>\<open>stats.size\<close>: the length of a file; for a directory, the size of its inode.\<close>

definition stat_size :: "node \<Rightarrow> int" where
  "stat_size n = (case n of File c m \<Rightarrow> int (length c) | other \<Rightarrow> 4096)"

text \<open>A number in decimal, as a template string prints \<open>Date.now()\<close>.\<close>

function string_of_nat :: "nat \<Rightarrow> string" where
  "string_of_nat n =
     (if n < 10 then [''0123456789'' ! n]
      else string_of_nat (n div 10) @ [''0123456789'' ! (n mod 10)])"
  by pat_completeness auto
termination
  by (relation "measure id") auto

subsection \<open>Batch operations\<close>

datatype batch_type = Copy | Move | DeleteOp

record batch_operation =
  op_type :: batch_type
  op_source :: string
  op_destination :: "string option"

text \<open>\<open>RollbackInfo\<close>: the operation with the optional fields \<open>backupPath\<close> and
  \<open>wasCreated\<close>.\<close>

record rollback_info =
  ri_operation :: batch_operation
  ri_backupPath :: "string option"
  ri_wasCreated :: "bool option"

text \<open>What an operation can throw: a \<open>SecurityError\<close>, one of the
  \<open>FileSystemError\<close>s of the class, or the error of a call to the fs module.\<close>

datatype op_error =
    Security rejection
  | SOURCE_MISSING
  | DESTINATION_REQUIRED
  | SOURCE_DISAPPEARED
  | Fs fs_error

datatype batch_error = BATCH_FAILED op_error | NOT_VALIDATED op_error

record batch_operation_result =
  res_operation :: batch_operation
  res_success :: bool
  res_error :: "op_error option"

text \<open>JavaScript takes an absent and an empty destination for false.\<close>

definition has_destination :: "batch_operation \<Rightarrow> bool" where
  "has_destination operation =
     (case op_destination operation of None \<Rightarrow> False | Some dest \<Rightarrow> dest \<noteq> [])"

definition destination_of :: "batch_operation \<Rightarrow> string" where
  "destination_of operation = (case op_destination operation of None \<Rightarrow> [] | Some dest \<Rightarrow> dest)"

text \<open>
  A call of \<open>validatePath\<close> followed by the rest of the computation: a rejection is
  thrown as a security error, and a call that does not return leaves the whole
  computation without result (\<open>None\<close>).
\<close>

definition validated ::
    "security_manager \<Rightarrow> node \<Rightarrow> string \<Rightarrow> operation \<Rightarrow> (string \<Rightarrow> (op_error + 'a) option)
       \<Rightarrow> (op_error + 'a) option" where
  "validated sm fs p operation rest =
     (case validatePath sm fs p operation of
        None \<Rightarrow> None
      | Some (Inl r) \<Rightarrow> Some (Inl (Security r))
      | Some (Inr v) \<Rightarrow> rest v)"

text \<open>\<open>calculateDirectorySize\<close>, on the entries that \<open>readdirSync\<close> lists for the
  directory.\<close>

function calculateDirectorySize :: "node \<Rightarrow> string \<Rightarrow> (string \<times> node) list \<Rightarrow> fs_error + int" where
  "calculateDirectorySize fs dirPath [] = Inr 0"
| "calculateDirectorySize fs dirPath ((name, entry) # rest) =
     (case (case entry of
              Dir m sub \<Rightarrow> calculateDirectorySize fs (path_join dirPath name) sub
            | other \<Rightarrow> (case statSync fs (path_join dirPath name) of
                         None \<Rightarrow> Inl ENOENT
                       | Some stats \<Rightarrow> Inr (stat_size stats))) of
        Inl e \<Rightarrow> Inl e
      | Inr sz \<Rightarrow> (case calculateDirectorySize fs dirPath rest of
                     Inl e \<Rightarrow> Inl e
                   | Inr restSize \<Rightarrow> Inr (sz + restSize)))"
  by pat_completeness auto
termination
  by (relation "measure (\<lambda>(fs, dirPath, es). size_list (size_prod (\<lambda>s. 0) size) es)") auto

text \<open>The checks on one operation that \<open>validateAllOperations\<close> makes in its loop; the
  result is the size that the operation adds to the total.\<close>

definition validateOne ::
    "security_manager \<Rightarrow> node \<Rightarrow> batch_operation \<Rightarrow> (op_error + int) option" where
  "validateOne sm fs operation =
     validated sm fs (op_source operation)
       (if op_type operation = DeleteOp then Delete else Read)
       (\<lambda>validatedSource.
          (case (if op_type operation \<noteq> DeleteOp
                 then (if \<not> existsSync fs validatedSource then Inl SOURCE_MISSING
                       else (case statSync fs validatedSource of
                               Some (File c m) \<Rightarrow>
                                 (case validateFileSize sm (int (length c)) of
                                    Inl r \<Rightarrow> Inl (Security r)
                                  | Inr u \<Rightarrow> Inr (int (length c)))
                             | Some (Dir m es) \<Rightarrow>
                                 (case calculateDirectorySize fs validatedSource es of
                                    Inl e \<Rightarrow> Inl (Fs e)
                                  | Inr dirSize \<Rightarrow> Inr dirSize)
                             | other \<Rightarrow> Inr 0))
                 else Inr 0) of
             Inl e \<Rightarrow> Some (Inl e)
           | Inr sz \<Rightarrow>
               if has_destination operation
               then validated sm fs (destination_of operation) Write (\<lambda>v. Some (Inr sz))
               else if op_type operation \<noteq> DeleteOp then Some (Inl DESTINATION_REQUIRED)
               else Some (Inr sz)))"

fun validateAll ::
    "security_manager \<Rightarrow> node \<Rightarrow> batch_operation list \<Rightarrow> int \<Rightarrow> (op_error + int) option" where
  "validateAll sm fs [] totalSize = Some (Inr totalSize)"
| "validateAll sm fs (operation # rest) totalSize =
     (case validateOne sm fs operation of
        None \<Rightarrow> None
      | Some (Inl e) \<Rightarrow> Some (Inl e)
      | Some (Inr sz) \<Rightarrow> validateAll sm fs rest (totalSize + sz))"

definition validateAllOperations ::
    "security_manager \<Rightarrow> node \<Rightarrow> batch_operation list \<Rightarrow> (op_error + unit) option" where
  "validateAllOperations sm fs operations =
     (case validateAll sm fs operations 0 of
        None \<Rightarrow> None
      | Some (Inl e) \<Rightarrow> Some (Inl e)
      | Some (Inr totalSize) \<Rightarrow>
          (case validateBatchSize sm totalSize (length operations) of
             Inl r \<Rightarrow> Some (Inl (Security r))
           | Inr u \<Rightarrow> Some (Inr ())))"

text \<open>\<open>validateSingleOperation\<close> differs in one point: the size of a directory is
  checked against the file size limit as well.\<close>

definition validateSingleOperation ::
    "security_manager \<Rightarrow> node \<Rightarrow> batch_operation \<Rightarrow> (op_error + unit) option" where
  "validateSingleOperation sm fs operation =
     validated sm fs (op_source operation)
       (if op_type operation = DeleteOp then Delete else Read)
       (\<lambda>validatedSource.
          (case (if op_type operation \<noteq> DeleteOp
                 then (if \<not> existsSync fs validatedSource then Inl SOURCE_MISSING
                       else (case statSync fs validatedSource of
                               Some (File c m) \<Rightarrow>
                                 (case validateFileSize sm (int (length c)) of
                                    Inl r \<Rightarrow> Inl (Security r)
                                  | Inr u \<Rightarrow> Inr ())
                             | Some (Dir m es) \<Rightarrow>
                                 (case calculateDirectorySize fs validatedSource es of
                                    Inl e \<Rightarrow> Inl (Fs e)
                                  | Inr dirSize \<Rightarrow>
                                      (case validateFileSize sm dirSize of
                                         Inl r \<Rightarrow> Inl (Security r)
                                       | Inr u \<Rightarrow> Inr ()))
                             | other \<Rightarrow> Inr ()))
                 else Inr ()) of
             Inl e \<Rightarrow> Some (Inl e)
           | Inr u \<Rightarrow>
               if has_destination operation
               then validated sm fs (destination_of operation) Write (\<lambda>v. Some (Inr ()))
               else if op_type operation \<noteq> DeleteOp then Some (Inl DESTINATION_REQUIRED)
               else Some (Inr ())))"

text \<open>The same for an operation that changes the filesystem: the filesystem reached so
  far is kept beside the error.\<close>

definition validated_at ::
    "security_manager \<Rightarrow> node \<Rightarrow> string \<Rightarrow> operation
       \<Rightarrow> (string \<Rightarrow> ((op_error + 'a) \<times> node) option) \<Rightarrow> ((op_error + 'a) \<times> node) option" where
  "validated_at sm fs p operation rest =
     (case validatePath sm fs p operation of
        None \<Rightarrow> None
      | Some (Inl r) \<Rightarrow> Some (Inl (Security r), fs)
      | Some (Inr v) \<Rightarrow> rest v)"

text \<open>
  The private \<open>copyDirectory\<close> of the class. It reads each directory when it reaches it,
  so that it does not end when the destination lies inside the source: \<open>depth\<close> bounds
  the nesting of its calls, and \<open>None\<close> is a copy that needs more.
\<close>

function copyDirectory :: "nat \<Rightarrow> node \<Rightarrow> int \<Rightarrow> string \<Rightarrow> string \<Rightarrow> (fs_error + node) option"
  and copyDirectoryEntries ::
    "nat \<Rightarrow> node \<Rightarrow> int \<Rightarrow> string \<Rightarrow> string \<Rightarrow> (string \<times> node) list \<Rightarrow> (fs_error + node) option"
  where
  "copyDirectory 0 fs now source destination = None"
| "copyDirectory (Suc depth) fs now source destination =
     (case (if \<not> existsSync fs destination then mkdirSync fs destination now else Inr fs) of
        Inl e \<Rightarrow> Some (Inl e)
      | Inr fs1 \<Rightarrow>
          (case readdirSync fs1 source of
             Inl e \<Rightarrow> Some (Inl e)
           | Inr dirEntries \<Rightarrow> copyDirectoryEntries depth fs1 now source destination dirEntries))"
| "copyDirectoryEntries depth fs now source destination [] = Some (Inr fs)"
| "copyDirectoryEntries depth fs now source destination ((name, entry) # rest) =
     (case (if isDirectory entry
            then copyDirectory depth fs now (path_join source name) (path_join destination name)
            else Some (copyFileSync fs (path_join source name) (path_join destination name) now)) of
        None \<Rightarrow> None
      | Some (Inl e) \<Rightarrow> Some (Inl e)
      | Some (Inr fs') \<Rightarrow> copyDirectoryEntries depth fs' now source destination rest)"
  by pat_completeness auto
termination
  by (relation "measures [\<lambda>x. case x of Inl (depth, r) \<Rightarrow> depth | Inr (depth, r) \<Rightarrow> depth,
                          \<lambda>x. case x of Inl r \<Rightarrow> 0
                                | Inr (depth, fs, now, source, destination, es) \<Rightarrow> Suc (length es)]")
    auto

text \<open>\<open>now\<close> is the reading of \<open>Date.now()\<close> while the operation runs.\<close>

definition backup_name :: "string \<Rightarrow> int \<Rightarrow> string" where
  "backup_name p now = p @ ''.backup-'' @ string_of_nat (nat now)"

definition executeCopy ::
    "security_manager \<Rightarrow> node \<Rightarrow> nat \<Rightarrow> int \<Rightarrow> string \<Rightarrow> string
       \<Rightarrow> ((op_error + string option \<times> bool option) \<times> node) option" where
  "executeCopy sm fs depth now source destination =
     validated_at sm fs destination Write
       (\<lambda>validatedDest.
          if \<not> existsSync fs source then Some (Inl SOURCE_DISAPPEARED, fs)
          else
            (let destExists = existsSync fs validatedDest;
                 destDir = dirname validatedDest
             in case (if \<not> existsSync fs destDir then mkdirSync fs destDir now else Inr fs) of
                  Inl e \<Rightarrow> Some (Inl (Fs e), fs)
                | Inr fs1 \<Rightarrow>
                    (case statSync fs1 source of
                       None \<Rightarrow> Some (Inl (Fs ENOENT), fs1)
                     | Some stats \<Rightarrow>
                         (case (if isDirectory stats
                                then copyDirectory depth fs1 now source validatedDest
                                else Some (copyFileSync fs1 source validatedDest now)) of
                            None \<Rightarrow> None
                          | Some (Inl e) \<Rightarrow> Some (Inl (Fs e), fs1)
                          | Some (Inr fs2) \<Rightarrow> Some (Inr (None, Some (\<not> destExists)), fs2)))))"

definition executeMove ::
    "security_manager \<Rightarrow> node \<Rightarrow> int \<Rightarrow> string \<Rightarrow> string
       \<Rightarrow> ((op_error + string option \<times> bool option) \<times> node) option" where
  "executeMove sm fs now source destination =
     validated_at sm fs destination Write
       (\<lambda>validatedDest.
          (let destExists = existsSync fs validatedDest
           in case (if destExists
                    then (case renameSync fs validatedDest (backup_name validatedDest now) of
                            Inl e \<Rightarrow> Inl e
                          | Inr fs1 \<Rightarrow> Inr (Some (backup_name validatedDest now), fs1))
                    else Inr (None, fs)) of
                Inl e \<Rightarrow> Some (Inl (Fs e), fs)
              | Inr (backupPath, fs1) \<Rightarrow>
                  (let destDir = dirname validatedDest
                   in case (if \<not> existsSync fs1 destDir then mkdirSync fs1 destDir now
                            else Inr fs1) of
                        Inl e \<Rightarrow> Some (Inl (Fs e), fs1)
                      | Inr fs2 \<Rightarrow>
                          (case renameSync fs2 source validatedDest of
                             Inl e \<Rightarrow> Some (Inl (Fs e), fs2)
                           | Inr fs3 \<Rightarrow> Some (Inr (backupPath, Some (\<not> destExists)), fs3)))))"

definition executeDelete ::
    "node \<Rightarrow> int \<Rightarrow> string \<Rightarrow> ((op_error + string option \<times> bool option) \<times> node) option" where
  "executeDelete fs now source =
     (case renameSync fs source (backup_name source now) of
        Inl e \<Rightarrow> Some (Inl (Fs e), fs)
      | Inr fs1 \<Rightarrow> Some (Inr (Some (backup_name source now), None), fs1))"

definition executeOperation ::
    "security_manager \<Rightarrow> node \<Rightarrow> nat \<Rightarrow> int \<Rightarrow> batch_operation
       \<Rightarrow> ((op_error + string option \<times> bool option) \<times> node) option" where
  "executeOperation sm fs depth now operation =
     validated_at sm fs (op_source operation)
       (if op_type operation = DeleteOp then Delete else Read)
       (\<lambda>validatedSource.
          case op_type operation of
            Copy \<Rightarrow> executeCopy sm fs depth now validatedSource (destination_of operation)
          | Move \<Rightarrow> executeMove sm fs now validatedSource (destination_of operation)
          | DeleteOp \<Rightarrow> executeDelete fs now validatedSource)"

text \<open>Removing what is at a validated destination, as both rollbacks do: a directory
  with \<open>rmSync\<close>, anything else with \<open>unlinkSync\<close>.\<close>

definition removeExisting :: "node \<Rightarrow> string \<Rightarrow> fs_error + node" where
  "removeExisting fs validatedDest =
     (if existsSync fs validatedDest
      then (case statSync fs validatedDest of
              None \<Rightarrow> Inl ENOENT
            | Some stats \<Rightarrow>
                if isDirectory stats then rmSync fs validatedDest
                else unlinkSync fs validatedDest)
      else Inr fs)"

text \<open>
  \<open>rollbackSingleOperation\<close>, statement by statement. The result is the error that it
  throws, if any, and the filesystem that it leaves.
\<close>

definition rollbackSingleOperation ::
    "security_manager \<Rightarrow> node \<Rightarrow> rollback_info \<Rightarrow> ((op_error + unit) \<times> node) option" where
  "rollbackSingleOperation sm fs info =
     (let operation = ri_operation info in
      case op_type operation of
        Copy \<Rightarrow>
          if ri_wasCreated info = Some True \<and> has_destination operation
          then validated_at sm fs (destination_of operation) Delete
                 (\<lambda>validatedDest.
                    case removeExisting fs validatedDest of
                      Inl e \<Rightarrow> Some (Inl (Fs e), fs)
                    | Inr fs1 \<Rightarrow> Some (Inr (), fs1))
          else Some (Inr (), fs)
      | Move \<Rightarrow>
          (case (case ri_backupPath info of
                   None \<Rightarrow> Some (Inr (), fs)
                 | Some backupPath \<Rightarrow>
                     if backupPath \<noteq> [] \<and> existsSync fs backupPath
                     then validated_at sm fs (destination_of operation) Delete
                            (\<lambda>validatedDest.
                               case removeExisting fs validatedDest of
                                 Inl e \<Rightarrow> Some (Inl (Fs e), fs)
                               | Inr fs1 \<Rightarrow>
                                   (case renameSync fs1 backupPath validatedDest of
                                      Inl e \<Rightarrow> Some (Inl (Fs e), fs1)
                                    | Inr fs2 \<Rightarrow> Some (Inr (), fs2)))
                     else Some (Inr (), fs)) of
             None \<Rightarrow> None
           | Some (Inl e, fs') \<Rightarrow> Some (Inl e, fs')
           | Some (Inr u, fs') \<Rightarrow>
               if has_destination operation
               then validated_at sm fs' (destination_of operation) Read
                      (\<lambda>validatedDest.
                         validated_at sm fs' (op_source operation) Write
                           (\<lambda>validatedSource.
                              if existsSync fs' validatedDest
                              then (case renameSync fs' validatedDest validatedSource of
                                      Inl e \<Rightarrow> Some (Inl (Fs e), fs')
                                    | Inr fs'' \<Rightarrow> Some (Inr (), fs''))
                              else Some (Inr (), fs')))
               else Some (Inr (), fs'))
      | DeleteOp \<Rightarrow>
          (case ri_backupPath info of
             None \<Rightarrow> Some (Inr (), fs)
           | Some backupPath \<Rightarrow>
               if backupPath \<noteq> [] \<and> existsSync fs backupPath
               then validated_at sm fs (op_source operation) Write
                      (\<lambda>validatedSource.
                         case renameSync fs backupPath validatedSource of
                           Inl e \<Rightarrow> Some (Inl (Fs e), fs)
                         | Inr fs1 \<Rightarrow> Some (Inr (), fs1))
               else Some (Inr (), fs)))"

text \<open>\<open>rollbackOperations\<close> goes through the records from the last to the first; a
  rollback that throws is logged and the loop goes on.\<close>

fun rollbackEach :: "security_manager \<Rightarrow> node \<Rightarrow> rollback_info list \<Rightarrow> node option" where
  "rollbackEach sm fs [] = Some fs"
| "rollbackEach sm fs (info # earlier) =
     (case rollbackSingleOperation sm fs info of
        None \<Rightarrow> None
      | Some (outcome, fs') \<Rightarrow> rollbackEach sm fs' earlier)"

definition rollbackOperations :: "security_manager \<Rightarrow> node \<Rightarrow> rollback_info list \<Rightarrow> node option" where
  "rollbackOperations sm fs rollbackInfo = rollbackEach sm fs (rev rollbackInfo)"

text \<open>
  The loop of \<open>executeBatch\<close>; \<open>clock i\<close> is the reading of \<open>Date.now()\<close> while the
  operation at index \<open>i\<close> runs. In atomic mode a failure is followed by the rollback and
  the batch error; otherwise it is recorded and the loop goes on.
\<close>

fun executeLoop ::
    "security_manager \<Rightarrow> nat \<Rightarrow> (nat \<Rightarrow> int) \<Rightarrow> bool \<Rightarrow> nat \<Rightarrow> node \<Rightarrow> batch_operation list
       \<Rightarrow> batch_operation_result list \<Rightarrow> rollback_info list
       \<Rightarrow> ((batch_error + batch_operation_result list) \<times> node) option" where
  "executeLoop sm depth clock atomic i fs [] results rollbackInfo = Some (Inr results, fs)"
| "executeLoop sm depth clock atomic i fs (operation # rest) results rollbackInfo =
     (case (case (if \<not> atomic then validateSingleOperation sm fs operation else Some (Inr ())) of
              None \<Rightarrow> None
            | Some (Inl e) \<Rightarrow> Some (Inl e, fs)
            | Some (Inr u) \<Rightarrow> executeOperation sm fs depth (clock i) operation) of
        None \<Rightarrow> None
      | Some (Inr (backupPath, wasCreated), fs') \<Rightarrow>
          executeLoop sm depth clock atomic (Suc i) fs' rest
            (results @ [\<lparr> res_operation = operation, res_success = True, res_error = None \<rparr>])
            (rollbackInfo @ [\<lparr> ri_operation = operation, ri_backupPath = backupPath,
                                ri_wasCreated = wasCreated \<rparr>])
      | Some (Inl e, fs') \<Rightarrow>
          if atomic
          then (case rollbackOperations sm fs' rollbackInfo of
                  None \<Rightarrow> None
                | Some fs'' \<Rightarrow> Some (Inl (BATCH_FAILED e), fs''))
          else executeLoop sm depth clock atomic (Suc i) fs' rest
                 (results @ [\<lparr> res_operation = operation, res_success = False,
                               res_error = Some e \<rparr>])
                 rollbackInfo)"

definition executeBatch ::
    "security_manager \<Rightarrow> node \<Rightarrow> nat \<Rightarrow> (nat \<Rightarrow> int) \<Rightarrow> batch_operation list \<Rightarrow> bool
       \<Rightarrow> ((batch_error + batch_operation_result list) \<times> node) option" where
  "executeBatch sm fs depth clock operations atomic =
     (case (if atomic then validateAllOperations sm fs operations else Some (Inr ())) of
        None \<Rightarrow> None
      | Some (Inl e) \<Rightarrow> Some (Inl (NOT_VALIDATED e), fs)
      | Some (Inr u) \<Rightarrow> executeLoop sm depth clock atomic 0 fs operations [] [])"

subsection \<open>A batch used in the examples\<close>

text \<open>A move onto an existing file, followed by a delete of the file that has just been
  moved away.\<close>

definition example_batch :: "batch_operation list" where
  "example_batch =
     [\<lparr> op_type = Move, op_source = ''a.txt'', op_destination = Some ''b.txt'' \<rparr>,
      \<lparr> op_type = DeleteOp, op_source = ''a.txt'', op_destination = None \<rparr>]"

definition clock_5 :: "nat \<Rightarrow> int" where
  "clock_5 i = 5"

section \<open>Properties of SecurityManager\<close>

lemma example_manager_constructed:
  "newSecurityManager example_fs ''/'' example_config = Inr example_manager"
  by (simp add: newSecurityManager_def example_manager_def example_config_def example_fs_def
      path_resolve_def is_absolute_def existsSync_def statSync_def SYMLOOP_MAX_def Let_def)

lemma validatePath_Inr:
  assumes "validatePath sm fs p op = Some (Inr r)"
  shows "r = path_resolve (workspaceRoot sm) p \<and> (prefix (workspaceRoot sm @ sep) r \<or> r = workspaceRoot sm)"
  using assms
  apply (subst (asm) validatePath.simps)
  apply (simp add: Let_def split: if_splits option.splits node.splits sum.splits bind_splits)
  done

text \<open>
  Claim C1. Whatever the input path and the operation, a path that \<open>validatePath\<close>
  returns equals the workspace root or begins with the workspace root followed by the
  separator. This holds for every manager that the constructor builds, that is, for every
  configuration whose workspace root is an existing directory.
\<close>

theorem C1_vetted_path_in_workspace:
  assumes "newSecurityManager fs0 cwd cfg = Inr sm"
    and "validatePath sm fs filePath operation = Some (Inr vetted)"
  shows "vetted = workspaceRoot sm \<or> prefix (workspaceRoot sm @ sep) vetted"
  using validatePath_Inr [OF assms(2)] by blast

text \<open>The constructor accepts the example configuration, and \<open>a.txt\<close> is vetted.\<close>

theorem C1_witness:
  "newSecurityManager example_fs ''/'' example_config = Inr example_manager
   \<and> validatePath example_manager example_fs ''a.txt'' Read = Some (Inr ''/ws/a.txt'')
   \<and> (''/ws/a.txt'' = workspaceRoot example_manager
        \<or> prefix (workspaceRoot example_manager @ sep) ''/ws/a.txt'')"
proof -
  have v: "validatePath example_manager example_fs ''a.txt'' Read = Some (Inr ''/ws/a.txt'')"
    by code_simp
  show ?thesis
    using example_manager_constructed v
      C1_vetted_path_in_workspace [OF example_manager_constructed v]
    by simp
qed

text \<open>
  Claim C5 says that an input containing \<open>..\<close> is rejected as a path traversal, by a
  lexical screen that fires before any resolution. With the workspace root \<open>/ws\<close> the
  input \<open>../etc/passwd\<close> is resolved first, found outside the workspace and rejected as a
  workspace escape.
\<close>

theorem C5_counterexample:
  "sublist ''..'' ''../etc/passwd''
   \<and> validatePath example_manager example_fs ''../etc/passwd'' Read = Some (Inl WORKSPACE_ESCAPE)"
  by code_simp

text \<open>
  Claim C5, amended. Every input whose text contains \<open>..\<close>, \<open>./\<close> or a dot followed by a backslash is
  rejected. The path is resolved and tested against the workspace boundary before the
  lexical screen: the rejection is a workspace escape when the resolved path lies outside
  the workspace, and a path traversal otherwise.
\<close>

theorem C5_traversal_rejected:
  assumes "sublist ''..'' filePath \<or> sublist ''./'' filePath \<or> sublist [CHR ''.'', bslash] filePath"
  shows "validatePath sm fs filePath operation =
           Some (Inl (if \<not> prefix (workspaceRoot sm @ sep) (path_resolve (workspaceRoot sm) filePath)
                         \<and> path_resolve (workspaceRoot sm) filePath \<noteq> workspaceRoot sm
                      then WORKSPACE_ESCAPE else PATH_TRAVERSAL))"
  using assms
  apply (subst validatePath.simps)
  apply (simp add: Let_def)
  done

text \<open>The input \<open>a/b/../c\<close> stays inside \<open>/ws\<close> and is rejected as a path traversal.\<close>

theorem C5_witness:
  "(sublist ''..'' ''a/b/../c'' \<or> sublist ''./'' ''a/b/../c'' \<or> sublist [CHR ''.'', bslash] ''a/b/../c'')
   \<and> validatePath example_manager example_fs ''a/b/../c'' Read = Some (Inl PATH_TRAVERSAL)"
proof -
  have h: "sublist ''..'' ''a/b/../c'' \<or> sublist ''./'' ''a/b/../c'' \<or> sublist [CHR ''.'', bslash] ''a/b/../c''"
    by code_simp
  have r: "path_resolve ''/ws'' ''a/b/../c'' = ''/ws/a/c''"
    by code_simp
  have w: "workspaceRoot example_manager = ''/ws''"
    by (simp add: example_manager_def)
  show ?thesis
    using h C5_traversal_rejected [OF h, of example_manager example_fs Read]
    by (simp add: r w sep_def)
qed

text \<open>
  Claim C6 says that a resolved path that starts with a hardcoded system path is rejected
  as a system path. With the workspace root \<open>/ws\<close> the input \<open>/etc/passwd\<close> resolves to a
  path that starts with \<open>/etc\<close>, and the rejection is a workspace escape.
\<close>

theorem C6_counterexample:
  "list_ex (\<lambda>systemPath. prefix systemPath (path_resolve (workspaceRoot example_manager) ''/etc/passwd'')) SYSTEM_PATHS
   \<and> validatePath example_manager example_fs ''/etc/passwd'' Read = Some (Inl WORKSPACE_ESCAPE)"
  by code_simp

text \<open>
  Claim C6, amended. An input whose resolved path starts with a hardcoded system path, or
  is matched by a hardcoded sensitive pattern, is rejected whatever the allowed
  subdirectories, blocked paths and blocked patterns of the manager are. The category is
  that of the first layer that applies: workspace escape, then path traversal, then system
  path, then sensitive file.
\<close>

theorem C6_hardcoded_screens:
  assumes "resolved = path_resolve (workspaceRoot sm) filePath"
    and "list_ex (\<lambda>systemPath. prefix systemPath resolved) SYSTEM_PATHS
         \<or> list_ex (\<lambda>pattern. pattern resolved) SENSITIVE_PATTERNS"
  shows "validatePath sm fs filePath operation =
           Some (Inl (if \<not> prefix (workspaceRoot sm @ sep) resolved \<and> resolved \<noteq> workspaceRoot sm
                        then WORKSPACE_ESCAPE
                      else if sublist ''..'' filePath \<or> sublist ''./'' filePath
                              \<or> sublist [CHR ''.'', bslash] filePath
                        then PATH_TRAVERSAL
                      else if list_ex (\<lambda>systemPath. prefix systemPath resolved) SYSTEM_PATHS
                        then SYSTEM_PATH
                      else SENSITIVE_FILE))"
proof -
  let ?outside = "\<not> prefix (workspaceRoot sm @ sep) resolved \<and> resolved \<noteq> workspaceRoot sm"
  let ?traversal = "sublist ''..'' filePath \<or> sublist ''./'' filePath
                              \<or> sublist [CHR ''.'', bslash] filePath"
  let ?system = "list_ex (\<lambda>systemPath. prefix systemPath resolved) SYSTEM_PATHS"
  consider (a) ?outside | (b) "\<not> ?outside" ?traversal
    | (c) "\<not> ?outside" "\<not> ?traversal" ?system
    | (d) "\<not> ?outside" "\<not> ?traversal" "\<not> ?system"
    by blast
  then show ?thesis
  proof cases
    case a
    then show ?thesis
      using assms(1) by (subst validatePath.simps) (simp add: Let_def)
  next
    case b
    then show ?thesis
      using assms(1) by (subst validatePath.simps) (simp add: Let_def)
  next
    case c
    then show ?thesis
      using assms(1) by (subst validatePath.simps) (simp add: Let_def)
  next
    case d
    with assms(2) have "list_ex (\<lambda>pattern. pattern resolved) SENSITIVE_PATTERNS"
      by blast
    with d show ?thesis
      using assms(1) by (subst validatePath.simps) (simp add: Let_def)
  qed
qed

text \<open>The path \<open>.ssh/config\<close> inside \<open>/ws\<close> is rejected as a sensitive file.\<close>

theorem C6_witness:
  "''/ws/.ssh/config'' = path_resolve (workspaceRoot example_manager) ''.ssh/config''
   \<and> list_ex (\<lambda>pattern. pattern ''/ws/.ssh/config'') SENSITIVE_PATTERNS
   \<and> validatePath example_manager example_fs ''.ssh/config'' Read = Some (Inl SENSITIVE_FILE)"
proof -
  have r: "''/ws/.ssh/config'' = path_resolve (workspaceRoot example_manager) ''.ssh/config''"
    by code_simp
  have m: "list_ex (\<lambda>systemPath. prefix systemPath ''/ws/.ssh/config'') SYSTEM_PATHS
           \<or> list_ex (\<lambda>pattern. pattern ''/ws/.ssh/config'') SENSITIVE_PATTERNS"
    by code_simp
  have s: "list_ex (\<lambda>pattern. pattern ''/ws/.ssh/config'') SENSITIVE_PATTERNS"
    by code_simp
  have e: "(if \<not> prefix (workspaceRoot example_manager @ sep) ''/ws/.ssh/config''
                \<and> ''/ws/.ssh/config'' \<noteq> workspaceRoot example_manager
             then WORKSPACE_ESCAPE
           else if sublist ''..'' ''.ssh/config'' \<or> sublist ''./'' ''.ssh/config''
                   \<or> sublist [CHR ''.'', bslash] ''.ssh/config''
             then PATH_TRAVERSAL
           else if list_ex (\<lambda>systemPath. prefix systemPath ''/ws/.ssh/config'') SYSTEM_PATHS
             then SYSTEM_PATH
           else SENSITIVE_FILE) = SENSITIVE_FILE"
    by code_simp
  show ?thesis
    using r s C6_hardcoded_screens [OF r m, of example_fs Read] unfolding e by simp
qed

lemma checkRateLimit_Inr:
  assumes "checkRateLimit sm agentId now = Inr sm'"
  shows "recorded sm' agentId = filter (\<lambda>t. now - t < 60000) (recorded sm agentId) @ [now]"
    and "config sm' = config sm"
    and "int (length (filter (\<lambda>t. now - t < 60000) (recorded sm agentId)))
           < maxOperationsPerMinute (config sm)"
  using assms
  by (auto simp: checkRateLimit_def recorded_def Let_def split: if_splits)

text \<open>A call of one agent leaves the timestamps recorded for every other agent alone.\<close>

lemma checkRateLimit_other_agent:
  assumes "checkRateLimit sm other now = Inr sm'" and "other \<noteq> agentId"
  shows "recorded sm' agentId = recorded sm agentId"
  using assms by (auto simp: checkRateLimit_def recorded_def Let_def split: if_splits)

lemma checkRateLimit_calls_config:
  "checkRateLimit_calls sm agentId ts = Inr sm' \<Longrightarrow> config sm' = config sm"
proof (induction ts arbitrary: sm)
  case Nil
  then show ?case by simp
next
  case (Cons t ts)
  then show ?case
    by (auto split: sum.splits dest: checkRateLimit_Inr(2))
qed

text \<open>Timestamps that lie within 60 seconds before every later call are all retained.\<close>

lemma checkRateLimit_calls_keep:
  assumes "checkRateLimit_calls sm agentId ts = Inr sm'"
    and "recorded sm agentId = pre @ keep"
    and "\<forall>u\<in>set ts. \<forall>t\<in>set keep \<union> set ts. u - t < 60000"
  shows "\<exists>pre'. recorded sm' agentId = pre' @ keep @ ts"
  using assms
proof (induction ts arbitrary: sm pre keep)
  case Nil
  then show ?case by auto
next
  case (Cons u ts)
  from Cons.prems(1) obtain sm1 where
    s1: "checkRateLimit sm agentId u = Inr sm1" and
    s2: "checkRateLimit_calls sm1 agentId ts = Inr sm'"
    by (auto split: sum.splits)
  have k: "filter (\<lambda>t. u - t < 60000) keep = keep"
    using Cons.prems(3) by (auto simp: filter_id_conv)
  have r1: "recorded sm1 agentId = filter (\<lambda>t. u - t < 60000) pre @ (keep @ [u])"
    using checkRateLimit_Inr(1) [OF s1] Cons.prems(2) k by simp
  have w: "\<forall>v\<in>set ts. \<forall>t\<in>set (keep @ [u]) \<union> set ts. v - t < 60000"
    using Cons.prems(3) by auto
  from Cons.IH [OF s2 r1 w] show ?case by auto
qed

lemma checkRateLimit_calls_length:
  assumes "checkRateLimit_calls sm agentId ts = Inr sm'" and "ts \<noteq> []"
  shows "int (length (recorded sm' agentId)) \<le> maxOperationsPerMinute (config sm)"
  using assms
proof (induction ts arbitrary: sm)
  case Nil
  then show ?case by simp
next
  case (Cons u ts)
  from Cons.prems(1) obtain sm1 where
    s1: "checkRateLimit sm agentId u = Inr sm1" and
    s2: "checkRateLimit_calls sm1 agentId ts = Inr sm'"
    by (auto split: sum.splits)
  show ?case
  proof (cases "ts = []")
    case True
    then have "sm' = sm1" using s2 by simp
    then show ?thesis
      using checkRateLimit_Inr(1,3) [OF s1] by simp
  next
    case False
    from Cons.IH [OF s2 False] checkRateLimit_Inr(2) [OF s1] show ?thesis by simp
  qed
qed

text \<open>
  Claim C7. Let an agent make as many successful \<open>checkRateLimit\<close> calls as
  \<open>maxOperationsPerMinute\<close> allows, at times that lie within one window of 60 seconds.
  Then a further call inside that window is rejected as a rate limit violation; and once
  more than 60 seconds have passed since the oldest recorded call, a call succeeds again,
  the entries older than the window being pruned.
\<close>

theorem C7_rate_limit_window:
  assumes calls: "checkRateLimit_calls sm agentId ts = Inr sm'"
    and full: "int (length ts) = maxOperationsPerMinute (config sm)"
    and window: "\<forall>u\<in>set ts. \<forall>t\<in>set ts. u - t < 60000"
  shows "(\<forall>now. (\<forall>t\<in>set ts. now - t < 60000) \<longrightarrow>
              checkRateLimit sm' agentId now = Inl RATE_LIMIT)
       \<and> (\<forall>now. ts \<noteq> [] \<and> 60000 < now - Min (set (recorded sm' agentId)) \<longrightarrow>
              (\<exists>sm''. checkRateLimit sm' agentId now = Inr sm''))"
proof (intro conjI allI impI)
  fix now
  assume inside: "\<forall>t\<in>set ts. now - t < 60000"
  from checkRateLimit_calls_keep [OF calls, of "recorded sm agentId" "[]"] window
  obtain pre where r: "recorded sm' agentId = pre @ ts" by auto
  have "filter (\<lambda>t. now - t < 60000) ts = ts"
    using inside by (auto simp: filter_id_conv)
  then have "length ts \<le> length (filter (\<lambda>t. now - t < 60000) (recorded sm' agentId))"
    using r by simp
  then show "checkRateLimit sm' agentId now = Inl RATE_LIMIT"
    using full checkRateLimit_calls_config [OF calls]
    by (simp add: checkRateLimit_def recorded_def Let_def)
next
  fix now
  assume a: "ts \<noteq> [] \<and> 60000 < now - Min (set (recorded sm' agentId))"
  let ?rec = "recorded sm' agentId"
  have len: "int (length ?rec) \<le> maxOperationsPerMinute (config sm)"
    using checkRateLimit_calls_length [OF calls] a by simp
  from checkRateLimit_calls_keep [OF calls, of "recorded sm agentId" "[]"] window
  obtain pre where r: "?rec = pre @ ts" by auto
  then have ne: "?rec \<noteq> []" using a by simp
  then have "Min (set ?rec) \<in> set ?rec" by simp
  moreover have "\<not> (now - Min (set ?rec) < 60000)" using a by simp
  ultimately have "\<exists>t\<in>set ?rec. \<not> (now - t < 60000)" by blast
  then have "length (filter (\<lambda>t. now - t < 60000) ?rec) < length ?rec"
    by (metis (mono_tags, lifting) length_filter_less)
  then show "\<exists>sm''. checkRateLimit sm' agentId now = Inr sm''"
    using len checkRateLimit_calls_config [OF calls]
    by (simp add: checkRateLimit_def recorded_def Let_def)
qed

text \<open>With a limit of two calls per minute: calls at 1000 and 2000 succeed, a call at 3000
  is rejected, a call at 61001 succeeds.\<close>

theorem C7_witness:
  "checkRateLimit_calls example_manager ''agent'' [1000, 2000]
     = Inr (example_manager\<lparr>operationCount := [''agent'' \<mapsto> [1000, 2000]]\<rparr>)
   \<and> checkRateLimit (example_manager\<lparr>operationCount := [''agent'' \<mapsto> [1000, 2000]]\<rparr>) ''agent'' 3000
       = Inl RATE_LIMIT
   \<and> (\<exists>sm''. checkRateLimit (example_manager\<lparr>operationCount := [''agent'' \<mapsto> [1000, 2000]]\<rparr>) ''agent'' 61001
       = Inr sm'')"
proof -
  let ?sm' = "example_manager\<lparr>operationCount := [''agent'' \<mapsto> [1000, 2000]]\<rparr>"
  have calls: "checkRateLimit_calls example_manager ''agent'' [1000, 2000] = Inr ?sm'"
    by (simp add: checkRateLimit_def example_manager_def example_config_def Let_def)
  have full: "int (length [1000, 2000 :: int]) = maxOperationsPerMinute (config example_manager)"
    by (simp add: example_manager_def example_config_def)
  have window: "\<forall>u\<in>set [1000, 2000 :: int]. \<forall>t\<in>set [1000, 2000]. u - t < 60000"
    by simp
  have rec: "recorded ?sm' ''agent'' = [1000, 2000]"
    by (simp add: recorded_def)
  from C7_rate_limit_window [OF calls full window] rec
  have "checkRateLimit ?sm' ''agent'' 3000 = Inl RATE_LIMIT"
    and "\<exists>sm''. checkRateLimit ?sm' ''agent'' 61001 = Inr sm''"
    by simp_all
  with calls show ?thesis by blast
qed

section \<open>Properties of DirectoryWatcher\<close>

lemma watcher_inv_new: "watcher_inv new_directory_watcher"
  by (simp add: watcher_inv_def new_directory_watcher_def)

lemma watcher_inv_alloc:
  assumes "watcher_inv dw"
  shows "watcher_inv (snd (new_array dw es))"
  using assms unfolding watcher_inv_def new_array_def
  by (auto simp: less_Suc_eq)

lemma new_array_fields:
  "fst (new_array dw es) = next_ref dw"
  "watchers (snd (new_array dw es)) = watchers dw"
  "sessions (snd (new_array dw es)) = sessions dw"
  "next_ref (snd (new_array dw es)) = Suc (next_ref dw)"
  "arrays (snd (new_array dw es)) = (arrays dw)(next_ref dw \<mapsto> es)"
  by (simp_all add: new_array_def)

lemma watcher_inv_cong:
  "watchers dw' = watchers dw \<Longrightarrow> sessions dw' = sessions dw \<Longrightarrow> next_ref dw' = next_ref dw
     \<Longrightarrow> watcher_inv dw' = watcher_inv dw"
  by (simp add: watcher_inv_def)

lemma watcher_inv_ref:
  assumes "watcher_inv dw" "map_of (sessions dw) x = Some t"
  shows "ws_events t < next_ref dw" and "ws_events t \<noteq> next_ref dw"
  using assms unfolding watcher_inv_def by fastforce+

lemma watcher_invI:
  assumes "watchers dw = W" "sessions dw = S" "next_ref dw = n"
    and "map fst W = map fst S"
    and "\<And>x t. map_of S x = Some t \<Longrightarrow> ws_events t < n"
    and "\<And>x t y u. map_of S x = Some t \<Longrightarrow> map_of S y = Some u
            \<Longrightarrow> ws_events t = ws_events u \<Longrightarrow> x = y"
  shows "watcher_inv dw"
  unfolding watcher_inv_def using assms by blast

lemma watcher_inv_set:
  assumes inv: "watcher_inv dw"
    and lt: "ws_events s < next_ref dw"
    and fresh: "\<And>sid' s'. map_of (sessions dw) sid' = Some s' \<Longrightarrow> sid' \<noteq> sid \<Longrightarrow> ws_events s' \<noteq> ws_events s"
  shows "watcher_inv (dw\<lparr>watchers := AList.update sid w (watchers dw),
                          sessions := AList.update sid s (sessions dw)\<rparr>)"
proof -
  have k: "map fst (AList.update sid w (watchers dw)) = map fst (AList.update sid s (sessions dw))"
    using inv by (simp add: watcher_inv_def update_keys)
  have b: "\<And>x t. ((map_of (sessions dw))(sid \<mapsto> s)) x = Some t \<Longrightarrow> ws_events t < next_ref dw"
    using inv lt by (auto simp: watcher_inv_def split: if_splits)
  have d: "\<And>x t y u. ((map_of (sessions dw))(sid \<mapsto> s)) x = Some t \<Longrightarrow>
                 ((map_of (sessions dw))(sid \<mapsto> s)) y = Some u \<Longrightarrow> ws_events t = ws_events u \<Longrightarrow> x = y"
  proof -
    fix x t y u
    assume 1: "((map_of (sessions dw))(sid \<mapsto> s)) x = Some t"
      and 2: "((map_of (sessions dw))(sid \<mapsto> s)) y = Some u"
      and 3: "ws_events t = ws_events u"
    show "x = y"
    proof (cases "x = sid")
      case True
      show ?thesis
      proof (cases "y = sid")
        case True
        with \<open>x = sid\<close> show ?thesis by simp
      next
        case False
        with 2 have "map_of (sessions dw) y = Some u" by simp
        from fresh [OF this False] 1 3 True show ?thesis by simp
      qed
    next
      case False
      with 1 have x: "map_of (sessions dw) x = Some t" by simp
      show ?thesis
      proof (cases "y = sid")
        case True
        from fresh [OF x False] 2 3 True show ?thesis by simp
      next
        case False
        with 2 have "map_of (sessions dw) y = Some u" by simp
        with x 3 inv show ?thesis unfolding watcher_inv_def by blast
      qed
    qed
  qed
  show ?thesis
  proof (rule watcher_invI [where W = "AList.update sid w (watchers dw)"
        and S = "AList.update sid s (sessions dw)" and n = "next_ref dw"])
    show "map fst (AList.update sid w (watchers dw)) = map fst (AList.update sid s (sessions dw))"
      by (rule k)
  next
    fix x t
    assume "map_of (AList.update sid s (sessions dw)) x = Some t"
    then show "ws_events t < next_ref dw"
      using b by (simp only: update_conv')
  next
    fix x t y u
    assume "map_of (AList.update sid s (sessions dw)) x = Some t"
      "map_of (AList.update sid s (sessions dw)) y = Some u" "ws_events t = ws_events u"
    then show "x = y"
      using d by (simp only: update_conv')
  qed simp_all
qed

lemma watcher_inv_delete:
  assumes inv: "watcher_inv dw"
  shows "watcher_inv (dw\<lparr>watchers := AList.delete sid (watchers dw),
                          sessions := AList.delete sid (sessions dw)\<rparr>)"
proof -
  have k: "map fst (AList.delete sid (watchers dw)) = map fst (AList.delete sid (sessions dw))"
    using inv by (simp add: watcher_inv_def delete_keys)
  have m: "\<And>x t. ((map_of (sessions dw))(sid := None)) x = Some t \<Longrightarrow> map_of (sessions dw) x = Some t"
    by (simp split: if_splits)
  show ?thesis
  proof (rule watcher_invI [where W = "AList.delete sid (watchers dw)"
        and S = "AList.delete sid (sessions dw)" and n = "next_ref dw"])
    show "map fst (AList.delete sid (watchers dw)) = map fst (AList.delete sid (sessions dw))"
      by (rule k)
  next
    fix x t
    assume "map_of (AList.delete sid (sessions dw)) x = Some t"
    then have "map_of (sessions dw) x = Some t"
      using m by (simp only: delete_conv')
    then show "ws_events t < next_ref dw"
      using inv unfolding watcher_inv_def by blast
  next
    fix x t y u
    assume "map_of (AList.delete sid (sessions dw)) x = Some t"
      "map_of (AList.delete sid (sessions dw)) y = Some u" "ws_events t = ws_events u"
    then have "map_of (sessions dw) x = Some t" "map_of (sessions dw) y = Some u"
      "ws_events t = ws_events u"
      using m by (simp_all only: delete_conv')
    then show "x = y"
      using inv unfolding watcher_inv_def by blast
  qed simp_all
qed

lemma watch_inv:
  assumes inv: "watcher_inv dw"
  shows "watcher_inv (snd (watch dw sessionId dirPath options stat init close_ok))"
proof -
  let ?dw1 = "snd (new_array dw [])"
  let ?s = "\<lparr> ws_id = sessionId, ws_path = dirPath, ws_recursive = opt_recursive options,
              ws_filters = (case opt_filters options of None \<Rightarrow> [] | Some fs \<Rightarrow> fs),
              ws_events = next_ref dw \<rparr>"
  let ?w = "\<lparr> fw_path = dirPath, fw_depth = (if opt_recursive options then None else Some 0) \<rparr>"
  let ?dw2 = "?dw1\<lparr>watchers := AList.update sessionId ?w (watchers ?dw1),
                     sessions := AList.update sessionId ?s (sessions ?dw1)\<rparr>"
  have i1: "watcher_inv ?dw1" by (rule watcher_inv_alloc [OF inv])
  have i2: "watcher_inv ?dw2"
    by (rule watcher_inv_set [OF i1]) (simp_all add: new_array_fields watcher_inv_ref(2) [OF inv])
  have i3: "watcher_inv (?dw2\<lparr>watchers := AList.delete sessionId (watchers ?dw2),
                               sessions := AList.delete sessionId (sessions ?dw2)\<rparr>)"
    by (rule watcher_inv_delete [OF i2])
  have cases: "snd (watch dw sessionId dirPath options stat init close_ok) = dw
      \<or> snd (watch dw sessionId dirPath options stat init close_ok) = ?dw2
      \<or> snd (watch dw sessionId dirPath options stat init close_ok)
          = ?dw2\<lparr>watchers := AList.delete sessionId (watchers ?dw2),
                   sessions := AList.delete sessionId (sessions ?dw2)\<rparr>"
    by (simp add: watch_def new_array_def Let_def split: stat_outcome.split init_outcome.split)
  then show ?thesis
    using inv i2 i3 by presburger
qed

lemma recordEvent_inv:
  assumes inv: "watcher_inv dw"
  shows "watcher_inv (recordEvent dw minimatch sessionId type filePath oldPath now)"
proof -
  have "watcher_inv (recordEvent dw minimatch sessionId type filePath oldPath now) = watcher_inv dw"
    by (rule watcher_inv_cong) (simp_all add: recordEvent_def Let_def split: option.split)
  with inv show ?thesis by simp
qed

lemma getEvents_inv:
  assumes inv: "watcher_inv dw"
  shows "watcher_inv (snd (getEvents dw sessionId))"
  using watcher_inv_alloc [OF inv] inv unfolding getEvents_def
  by (simp split: option.split prod.split add: Let_def) (metis snd_conv)

lemma clearEvents_inv:
  assumes inv: "watcher_inv dw"
  shows "watcher_inv (snd (clearEvents dw sessionId))"
proof (cases "map_of (sessions dw) sessionId")
  case None
  then show ?thesis using inv by (simp add: clearEvents_def)
next
  case (Some session)
  let ?dw1 = "snd (new_array dw [])"
  let ?s = "session\<lparr>ws_events := next_ref dw\<rparr>"
  have i1: "watcher_inv ?dw1" by (rule watcher_inv_alloc [OF inv])
  obtain w where w: "map_of (watchers dw) sessionId = Some w"
  proof -
    have "sessionId \<in> fst ` set (sessions dw)"
      using Some by (metis map_of_eq_None_iff option.distinct(1))
    then have "sessionId \<in> fst ` set (watchers dw)"
      using inv unfolding watcher_inv_def by (metis set_map)
    then show ?thesis
      using that by (meson map_of_eq_None_iff not_Some_eq)
  qed
  have "watcher_inv (?dw1\<lparr>watchers := AList.update sessionId w (watchers ?dw1),
                            sessions := AList.update sessionId ?s (sessions ?dw1)\<rparr>)"
    by (rule watcher_inv_set [OF i1]) (simp_all add: new_array_fields watcher_inv_ref(2) [OF inv])
  moreover have "AList.update sessionId w (watchers ?dw1) = watchers ?dw1"
    using w by (simp add: new_array_fields update_triv)
  ultimately show ?thesis
    using Some by (simp add: clearEvents_def new_array_def Let_def)
qed

lemma stopWatch_inv:
  assumes inv: "watcher_inv dw"
  shows "watcher_inv (snd (stopWatch dw sessionId close_ok))"
  using inv watcher_inv_delete [OF inv, of sessionId]
  by (simp add: stopWatch_def Let_def split: option.split)

lemma stopAll_inv: "watcher_inv (snd (stopAll dw closes))"
  by (simp add: stopAll_def Let_def watcher_inv_def)

lemma perform_inv: "watcher_inv dw \<Longrightarrow> watcher_inv (perform dw c)"
  by (cases c) (simp_all add: watch_inv recordEvent_inv getEvents_inv clearEvents_inv
      stopWatch_inv stopAll_inv)

lemma run_calls_inv: "watcher_inv dw \<Longrightarrow> watcher_inv (run_calls dw cs)"
  by (induction cs arbitrary: dw) (simp_all add: perform_inv)

lemma map_of_keys_None:
  assumes "map fst xs = map fst ys"
  shows "map_of xs k = None \<longleftrightarrow> map_of ys k = None"
  using assms by (metis map_of_eq_None_iff set_map)

lemma stopWatch_fresh:
  assumes inv: "watcher_inv dw"
  shows "map_of (sessions (snd (stopWatch dw sid close_ok))) sid = None"
proof (cases "map_of (watchers dw) sid")
  case None
  then have "map_of (sessions dw) sid = None"
    using inv map_of_keys_None [of "watchers dw" "sessions dw" sid]
    by (simp add: watcher_inv_def)
  with None show ?thesis by (simp add: stopWatch_def)
next
  case (Some w)
  then show ?thesis
    by (simp add: stopWatch_def Let_def delete_conv')
qed

lemma watch_fresh_succeeds:
  assumes "map_of (sessions dw) sid = None" "isDirectory stats"
  shows "fst (watch dw sid dirPath options (StatNode stats) Ready c) = Inr ()"
  using assms by (simp add: watch_def new_array_def Let_def)

text \<open>
  Claim C10. After every sequence of calls, failing ones included, the maps \<open>watchers\<close>
  and \<open>sessions\<close> hold the same session ids. Hence, whether \<open>stopWatch\<close> succeeds,
  fails to close the watcher or does not know the session, the session id is fresh
  afterwards, and a new \<open>watch\<close> with that id on a directory succeeds once its watcher
  is ready.
\<close>

theorem C10_maps_agree:
  "fst ` set (watchers (run_calls new_directory_watcher cs))
     = fst ` set (sessions (run_calls new_directory_watcher cs))
   \<and> map_of (sessions (snd (stopWatch (run_calls new_directory_watcher cs) sid close_ok))) sid = None
   \<and> (isDirectory stats \<longrightarrow>
        fst (watch (snd (stopWatch (run_calls new_directory_watcher cs) sid close_ok))
               sid dirPath options (StatNode stats) Ready c) = Inr ())"
proof -
  let ?dw = "run_calls new_directory_watcher cs"
  have inv: "watcher_inv ?dw"
    by (rule run_calls_inv [OF watcher_inv_new])
  then have "map fst (watchers ?dw) = map fst (sessions ?dw)"
    by (simp add: watcher_inv_def)
  then have "set (map fst (watchers ?dw)) = set (map fst (sessions ?dw))"
    by simp
  then have keys: "fst ` set (watchers ?dw) = fst ` set (sessions ?dw)"
    by simp
  have fresh: "map_of (sessions (snd (stopWatch ?dw sid close_ok))) sid = None"
    by (rule stopWatch_fresh [OF inv])
  show ?thesis
    using keys fresh watch_fresh_succeeds [OF fresh] by blast
qed

text \<open>A session is started, stopped with a failing close, and started again.\<close>

theorem C10_witness:
  "isDirectory (Dir 0 [])
   \<and> fst ` set (watchers (run_calls new_directory_watcher example_calls)) = {''s1''}
   \<and> fst (stopWatch (run_calls new_directory_watcher example_calls) ''s1'' False) = Inl STOP_FAILED
   \<and> fst (watch (snd (stopWatch (run_calls new_directory_watcher example_calls) ''s1'' False))
            ''s1'' ''/ws'' example_options (StatNode (Dir 0 [])) Ready True) = Inr ()"
proof -
  have d: "isDirectory (Dir 0 [])" by (simp add: isDirectory_def)
  have w: "fst ` set (watchers (run_calls new_directory_watcher example_calls)) = {''s1''}"
    by (simp add: example_calls_def example_options_def new_directory_watcher_def watch_def
        new_array_def isDirectory_def Let_def)
  have s: "fst (stopWatch (run_calls new_directory_watcher example_calls) ''s1'' False) = Inl STOP_FAILED"
    by (simp add: example_calls_def example_options_def new_directory_watcher_def watch_def
        new_array_def isDirectory_def stopWatch_def Let_def)
  from C10_maps_agree [of example_calls "''s1''" False "Dir 0 []" "''/ws''" example_options True] d w s
  show ?thesis by blast
qed

lemma next_ref_perform: "next_ref dw \<le> next_ref (perform dw c)"
  by (cases c)
    (simp_all add: watch_def recordEvent_def getEvents_def clearEvents_def stopWatch_def
      stopAll_def new_array_def Let_def
      split: option.split stat_outcome.split init_outcome.split)

text \<open>A session of the state after a call is a session of the state before it, or its
  buffer is the array that the call has allocated.\<close>

lemma sessions_perform:
  assumes "map_of (sessions (perform dw c)) x = Some t"
  shows "map_of (sessions dw) x = Some t \<or> ws_events t = next_ref dw"
proof (cases c)
  case (Watch sessionId dirPath options stat init close_ok)
  with assms show ?thesis
    by (auto simp: watch_def new_array_def Let_def update_conv' delete_conv'
        split: if_splits stat_outcome.splits init_outcome.splits)
next
  case (ClearEvents sessionId)
  with assms show ?thesis
    by (auto simp: clearEvents_def new_array_def Let_def update_conv'
        split: if_splits option.splits)
next
  case (StopWatch sessionId close_ok)
  with assms show ?thesis
    by (auto simp: stopWatch_def Let_def delete_conv' split: if_splits option.splits)
qed (use assms in \<open>auto simp: recordEvent_def getEvents_def stopAll_def new_array_def Let_def
        split: if_splits option.splits\<close>)

text \<open>An array that is no session's buffer is left alone by every call.\<close>

lemma arrays_perform_detached:
  assumes "detached dw r"
  shows "arrays (perform dw c) r = arrays dw r"
proof (cases c)
  case (RecordEvent minimatch sessionId type filePath oldPath now)
  with assms show ?thesis
    by (auto simp: recordEvent_def detached_def Let_def split: option.splits)
qed (use assms in \<open>auto simp: watch_def getEvents_def clearEvents_def stopWatch_def stopAll_def
        new_array_def Let_def detached_def
        split: option.splits stat_outcome.splits init_outcome.splits\<close>)

lemma detached_perform:
  assumes "detached dw r"
  shows "detached (perform dw c) r" and "array_contents (perform dw c) r = array_contents dw r"
proof -
  have lt: "r < next_ref (perform dw c)"
    using assms next_ref_perform [of dw c] by (simp add: detached_def)
  have "ws_events t \<noteq> r" if "map_of (sessions (perform dw c)) x = Some t" for x t
    using sessions_perform [OF that] assms unfolding detached_def by auto
  with lt show "detached (perform dw c) r"
    unfolding detached_def by blast
  show "array_contents (perform dw c) r = array_contents dw r"
    using arrays_perform_detached [OF assms] by (simp add: array_contents_def)
qed

lemma detached_run_calls:
  "detached dw r \<Longrightarrow> array_contents (run_calls dw cs) r = array_contents dw r"
  by (induction cs arbitrary: dw) (simp_all add: detached_perform)


lemma getEvents_known:
  assumes inv: "watcher_inv dw" and live: "map_of (sessions dw) sid = Some s"
  shows "\<exists>r dw'. getEvents dw sid = (Inr r, dw')
           \<and> array_contents dw' r = array_contents dw (ws_events s)
           \<and> r \<noteq> ws_events s
           \<and> sessions dw' = sessions dw \<and> watchers dw' = watchers dw
           \<and> (\<forall>x. buffer dw' x = buffer dw x)
           \<and> detached dw' r \<and> watcher_inv dw'"
proof -
  let ?dw' = "snd (new_array dw (array_contents dw (ws_events s)))"
  have g: "getEvents dw sid = (Inr (next_ref dw), ?dw')"
    using live by (simp add: getEvents_def new_array_def Let_def)
  have c: "array_contents ?dw' (next_ref dw) = array_contents dw (ws_events s)"
    by (simp add: array_contents_def new_array_fields)
  have old: "array_contents ?dw' (ws_events t) = array_contents dw (ws_events t)"
    if "map_of (sessions dw) x = Some t" for x t
    using watcher_inv_ref(2) [OF inv that] by (simp add: array_contents_def new_array_fields)
  have b: "buffer ?dw' x = buffer dw x" for x
    by (cases "map_of (sessions dw) x") (simp_all add: buffer_def new_array_fields old)
  have d: "detached ?dw' (next_ref dw)"
    using watcher_inv_ref(2) [OF inv] unfolding detached_def
    by (auto simp: new_array_fields)
  show ?thesis
    using g c b d watcher_inv_ref(2) [OF inv live] watcher_inv_alloc [OF inv]
    by (auto simp: new_array_fields)
qed

lemma getEvents_repeat:
  assumes inv: "watcher_inv dw"
  shows "buffer (run_calls dw (replicate n (GetEvents sid))) sid = buffer dw sid"
  using inv
proof (induction n arbitrary: dw)
  case 0
  then show ?case by simp
next
  case (Suc n)
  show ?case
  proof (cases "map_of (sessions dw) sid")
    case None
    then have "perform dw (GetEvents sid) = dw" by (simp add: getEvents_def)
    with Suc show ?thesis by simp
  next
    case (Some s)
    from getEvents_known [OF Suc.prems Some] obtain r dw' where
      g: "getEvents dw sid = (Inr r, dw')" and b: "\<forall>x. buffer dw' x = buffer dw x"
      and i: "watcher_inv dw'" by blast
    from g have "perform dw (GetEvents sid) = dw'" by simp
    with Suc.IH [OF i] b show ?thesis by simp
  qed
qed

lemma clearEvents_known:
  assumes inv: "watcher_inv dw" and live: "map_of (sessions dw) sid = Some s"
  shows "\<exists>dw'. clearEvents dw sid = (Inr (), dw') \<and> buffer dw' sid = Some []
           \<and> (\<forall>x. x \<noteq> sid \<longrightarrow> buffer dw' x = buffer dw x)"
proof -
  let ?dw1 = "snd (new_array dw [])"
  let ?dw' = "?dw1\<lparr>sessions := AList.update sid (s\<lparr>ws_events := next_ref dw\<rparr>) (sessions ?dw1)\<rparr>"
  have g: "clearEvents dw sid = (Inr (), ?dw')"
    using live by (simp add: clearEvents_def new_array_def Let_def)
  have e: "buffer ?dw' sid = Some []"
    by (simp add: buffer_def update_conv' array_contents_def new_array_fields)
  have o: "buffer ?dw' x = buffer dw x" if "x \<noteq> sid" for x
  proof (cases "map_of (sessions dw) x")
    case None
    with that show ?thesis by (simp add: buffer_def update_conv' new_array_fields)
  next
    case (Some t)
    with that watcher_inv_ref(2) [OF inv Some] show ?thesis
      by (simp add: buffer_def update_conv' array_contents_def new_array_fields)
  qed
  from g e o show ?thesis by blast
qed

lemma unknown_session:
  assumes "map_of (sessions dw) sid = None"
  shows "getEvents dw sid = (Inl SESSION_NOT_FOUND, dw)"
    and "clearEvents dw sid = (Inl SESSION_NOT_FOUND, dw)"
  using assms by (simp_all add: getEvents_def clearEvents_def)

lemma buffer_cong:
  assumes "map_of (sessions dw') sid = map_of (sessions dw) sid"
    and "\<And>s. map_of (sessions dw) sid = Some s \<Longrightarrow> arrays dw' (ws_events s) = arrays dw (ws_events s)"
  shows "buffer dw' sid = buffer dw sid"
  using assms by (cases "map_of (sessions dw) sid") (simp_all add: buffer_def array_contents_def)

lemma watch_buffer:
  assumes inv: "watcher_inv dw" and live: "map_of (sessions dw) sid = Some s"
  shows "buffer (snd (watch dw sessionId dirPath options stat init close_ok)) sid = buffer dw sid"
proof (cases "sessionId = sid")
  case True
  with live show ?thesis by (simp add: watch_def)
next
  case False
  show ?thesis
  proof (rule buffer_cong)
    show "map_of (sessions (snd (watch dw sessionId dirPath options stat init close_ok))) sid
            = map_of (sessions dw) sid"
      using False
      by (simp add: watch_def new_array_def Let_def update_conv' delete_conv'
          split: stat_outcome.split init_outcome.split)
  next
    fix t
    assume "map_of (sessions dw) sid = Some t"
    from watcher_inv_ref(2) [OF inv this]
    show "arrays (snd (watch dw sessionId dirPath options stat init close_ok)) (ws_events t)
            = arrays dw (ws_events t)"
      by (simp add: watch_def new_array_def Let_def
          split: stat_outcome.split init_outcome.split)
  qed
qed

lemma recordEvent_buffer:
  assumes inv: "watcher_inv dw" and live: "buffer dw sid = Some es"
  shows "\<exists>es'. buffer (recordEvent dw minimatch sessionId type filePath oldPath now) sid = Some es'
            \<and> prefix es es'"
proof -
  from live obtain s where s: "map_of (sessions dw) sid = Some s"
    and es: "es = array_contents dw (ws_events s)"
    by (auto simp: buffer_def)
  show ?thesis
  proof (cases "map_of (sessions dw) sessionId")
    case None
    then show ?thesis using live by (simp add: recordEvent_def)
  next
    case (Some t)
    show ?thesis
    proof (cases "sessionId = sid")
      case True
      with Some s have "t = s" by simp
      with Some s es True show ?thesis
        by (simp add: recordEvent_def Let_def buffer_def array_contents_def)
    next
      case False
      have "ws_events t \<noteq> ws_events s"
        using inv Some s False unfolding watcher_inv_def by blast
      with Some s es show ?thesis
        by (simp add: recordEvent_def Let_def buffer_def array_contents_def)
    qed
  qed
qed

lemma stopWatch_buffer:
  assumes inv: "watcher_inv dw"
    and after: "buffer (snd (stopWatch dw sessionId close_ok)) sid = Some es'"
  shows "buffer dw sid = Some es'"
proof (cases "map_of (watchers dw) sessionId")
  case None
  with after show ?thesis by (simp add: stopWatch_def)
next
  case (Some w)
  then have e: "snd (stopWatch dw sessionId close_ok)
                  = dw\<lparr>watchers := AList.delete sessionId (watchers dw),
                        sessions := AList.delete sessionId (sessions dw)\<rparr>"
    by (simp add: stopWatch_def Let_def)
  show ?thesis
    using after unfolding e
    by (cases "sessionId = sid") (simp_all add: buffer_def delete_conv' array_contents_def)
qed

lemma stopAll_state: "snd (stopAll dw closes) = dw\<lparr>watchers := [], sessions := []\<rparr>"
  by (simp add: stopAll_def Let_def)

lemma only_clearEvents_empties:
  assumes inv: "watcher_inv dw" and c: "c \<noteq> ClearEvents sid"
    and before: "buffer dw sid = Some es" and after: "buffer (perform dw c) sid = Some es'"
  shows "prefix es es'"
proof -
  from before obtain s where s: "map_of (sessions dw) sid = Some s"
    by (auto simp: buffer_def)
  show ?thesis
  proof (cases c)
    case (Watch sessionId dirPath options stat init close_ok)
    with watch_buffer [OF inv s] before after show ?thesis by simp
  next
    case (RecordEvent minimatch sessionId type filePath oldPath now)
    with recordEvent_buffer [OF inv before, of minimatch sessionId type filePath oldPath now] after
    show ?thesis by auto
  next
    case (GetEvents sessionId)
    show ?thesis
    proof (cases "map_of (sessions dw) sessionId")
      case None
      with GetEvents before after show ?thesis by (simp add: getEvents_def)
    next
      case (Some t)
      from getEvents_known [OF inv Some] GetEvents before after show ?thesis by auto
    qed
  next
    case (ClearEvents sessionId)
    with c have ne: "sid \<noteq> sessionId" by simp
    show ?thesis
    proof (cases "map_of (sessions dw) sessionId")
      case None
      with ClearEvents before after show ?thesis by (simp add: clearEvents_def)
    next
      case (Some t)
      from clearEvents_known [OF inv Some] ClearEvents ne before after show ?thesis by auto
    qed
  next
    case (StopWatch sessionId close_ok)
    with stopWatch_buffer [OF inv] before after show ?thesis by auto
  next
    case (StopAll closes)
    with after show ?thesis by (simp add: stopAll_state buffer_def)
  qed
qed

text \<open>
  Claim C9. In every state that calls can produce, \<open>getEvents\<close> on a live session
  returns a new array that holds the events of the session's buffer in their order; the
  buffers of all sessions are as before, and later calls do not change the returned
  array. Calling \<open>getEvents\<close> any number of times leaves the buffer as it is. Among all
  calls, only \<open>clearEvents\<close> on the session takes events away from its buffer, and it
  leaves the buffer empty. For an unknown session id both calls are rejected with
  "session not found" and change nothing.
\<close>

theorem C9_getEvents_snapshot:
  "(\<forall>s. map_of (sessions (run_calls new_directory_watcher cs)) sid = Some s \<longrightarrow>
      (\<exists>r dw'. getEvents (run_calls new_directory_watcher cs) sid = (Inr r, dw')
          \<and> array_contents dw' r = array_contents (run_calls new_directory_watcher cs) (ws_events s)
          \<and> r \<noteq> ws_events s
          \<and> (\<forall>x. buffer dw' x = buffer (run_calls new_directory_watcher cs) x)
          \<and> (\<forall>later. array_contents (run_calls dw' later) r = array_contents dw' r))
      \<and> (\<exists>dw'. clearEvents (run_calls new_directory_watcher cs) sid = (Inr (), dw')
          \<and> buffer dw' sid = Some []))
   \<and> (\<forall>n. buffer (run_calls (run_calls new_directory_watcher cs) (replicate n (GetEvents sid))) sid
           = buffer (run_calls new_directory_watcher cs) sid)
   \<and> (\<forall>c es es'. c \<noteq> ClearEvents sid
          \<and> buffer (run_calls new_directory_watcher cs) sid = Some es
          \<and> buffer (perform (run_calls new_directory_watcher cs) c) sid = Some es'
          \<longrightarrow> prefix es es')
   \<and> (map_of (sessions (run_calls new_directory_watcher cs)) sid = None \<longrightarrow>
        getEvents (run_calls new_directory_watcher cs) sid
          = (Inl SESSION_NOT_FOUND, run_calls new_directory_watcher cs)
        \<and> clearEvents (run_calls new_directory_watcher cs) sid
          = (Inl SESSION_NOT_FOUND, run_calls new_directory_watcher cs))"
proof -
  let ?dw = "run_calls new_directory_watcher cs"
  have inv: "watcher_inv ?dw"
    by (rule run_calls_inv [OF watcher_inv_new])
  have known: "(\<exists>r dw'. getEvents ?dw sid = (Inr r, dw')
          \<and> array_contents dw' r = array_contents ?dw (ws_events s)
          \<and> r \<noteq> ws_events s
          \<and> (\<forall>x. buffer dw' x = buffer ?dw x)
          \<and> (\<forall>later. array_contents (run_calls dw' later) r = array_contents dw' r))
      \<and> (\<exists>dw'. clearEvents ?dw sid = (Inr (), dw') \<and> buffer dw' sid = Some [])"
    if live: "map_of (sessions ?dw) sid = Some s" for s
  proof
    from getEvents_known [OF inv live] obtain r dw' where
      g: "getEvents ?dw sid = (Inr r, dw')"
      and a: "array_contents dw' r = array_contents ?dw (ws_events s)"
      and n: "r \<noteq> ws_events s"
      and b: "\<forall>x. buffer dw' x = buffer ?dw x"
      and d: "detached dw' r"
      by blast
    from detached_run_calls [OF d] g a n b
    show "\<exists>r dw'. getEvents ?dw sid = (Inr r, dw')
          \<and> array_contents dw' r = array_contents ?dw (ws_events s)
          \<and> r \<noteq> ws_events s
          \<and> (\<forall>x. buffer dw' x = buffer ?dw x)
          \<and> (\<forall>later. array_contents (run_calls dw' later) r = array_contents dw' r)"
      by blast
    from clearEvents_known [OF inv live]
    show "\<exists>dw'. clearEvents ?dw sid = (Inr (), dw') \<and> buffer dw' sid = Some []"
      by blast
  qed
  have rep: "\<forall>n. buffer (run_calls ?dw (replicate n (GetEvents sid))) sid = buffer ?dw sid"
    using getEvents_repeat [OF inv] by blast
  have only: "\<forall>c es es'. c \<noteq> ClearEvents sid \<and> buffer ?dw sid = Some es
          \<and> buffer (perform ?dw c) sid = Some es' \<longrightarrow> prefix es es'"
    using only_clearEvents_empties [OF inv] by blast
  have unknown: "map_of (sessions ?dw) sid = None \<longrightarrow>
        getEvents ?dw sid = (Inl SESSION_NOT_FOUND, ?dw)
        \<and> clearEvents ?dw sid = (Inl SESSION_NOT_FOUND, ?dw)"
    using unknown_session by blast
  from known rep only unknown show ?thesis by blast
qed

lemma example_event_state:
  "run_calls new_directory_watcher example_event_calls
     = \<lparr> watchers = [(''s1'', \<lparr> fw_path = ''/ws'', fw_depth = None \<rparr>)],
         sessions = [(''s1'', example_session)],
         arrays = [0 \<mapsto> [example_event]],
         next_ref = 1 \<rparr>"
  by (simp add: example_event_calls_def example_calls_def example_options_def
      example_session_def example_event_def new_directory_watcher_def watch_def recordEvent_def
      shouldIncludeEvent_def new_array_def array_contents_def isDirectory_def Let_def)

text \<open>After one session has been started and one event recorded: \<open>getEvents\<close> returns
  a copy, \<open>clearEvents\<close> empties the buffer, and the unknown id \<open>s2\<close> is rejected.\<close>

theorem C9_witness:
  "map_of (sessions (run_calls new_directory_watcher example_event_calls)) ''s1'' = Some example_session
   \<and> buffer (run_calls new_directory_watcher example_event_calls) ''s1'' = Some [example_event]
   \<and> (\<exists>r dw'. getEvents (run_calls new_directory_watcher example_event_calls) ''s1'' = (Inr r, dw')
          \<and> array_contents dw' r = [example_event] \<and> r \<noteq> 0
          \<and> buffer dw' ''s1'' = Some [example_event])
   \<and> (\<exists>dw'. clearEvents (run_calls new_directory_watcher example_event_calls) ''s1'' = (Inr (), dw')
          \<and> buffer dw' ''s1'' = Some [])
   \<and> map_of (sessions (run_calls new_directory_watcher example_event_calls)) ''s2'' = None
   \<and> getEvents (run_calls new_directory_watcher example_event_calls) ''s2''
        = (Inl SESSION_NOT_FOUND, run_calls new_directory_watcher example_event_calls)"
proof -
  let ?dw = "run_calls new_directory_watcher example_event_calls"
  have live: "map_of (sessions ?dw) ''s1'' = Some example_session"
    by (simp add: example_event_state)
  have buf: "buffer ?dw ''s1'' = Some [example_event]"
    by (simp add: example_event_state buffer_def array_contents_def example_session_def)
  have arr: "array_contents ?dw (ws_events example_session) = [example_event]"
    by (simp add: example_event_state array_contents_def example_session_def)
  have ref: "ws_events example_session = 0"
    by (simp add: example_session_def)
  have unknown: "map_of (sessions ?dw) ''s2'' = None"
    by (simp add: example_event_state)
  from C9_getEvents_snapshot [of example_event_calls "''s1''", THEN conjunct1, rule_format, OF live]
  obtain r dw' dw'' where
    g: "getEvents ?dw ''s1'' = (Inr r, dw')"
    and a: "array_contents dw' r = array_contents ?dw (ws_events example_session)"
    and n: "r \<noteq> ws_events example_session"
    and b: "\<forall>x. buffer dw' x = buffer ?dw x"
    and c: "clearEvents ?dw ''s1'' = (Inr (), dw'')"
    and e: "buffer dw'' ''s1'' = Some []"
    by (elim conjE exE)
  have k1: "\<exists>r dw'. getEvents ?dw ''s1'' = (Inr r, dw')
          \<and> array_contents dw' r = [example_event] \<and> r \<noteq> 0
          \<and> buffer dw' ''s1'' = Some [example_event]"
    using g a n b arr ref buf by auto
  have k2: "\<exists>dw'. clearEvents ?dw ''s1'' = (Inr (), dw') \<and> buffer dw' ''s1'' = Some []"
    using c e by auto
  have u: "getEvents ?dw ''s2'' = (Inl SESSION_NOT_FOUND, ?dw)"
    using C9_getEvents_snapshot [of example_event_calls "''s2''", THEN conjunct2, THEN conjunct2,
        THEN conjunct2, rule_format, OF unknown]
    by (rule conjunct1)
  from live buf k1 k2 unknown u show ?thesis
    by (intro conjI)
qed

section \<open>The recursion of validatePath\<close>

text \<open>The body of \<open>validatePath\<close>, with \<open>f\<close> for the recursive call, in terms of
  \<open>validatePath_step\<close>.\<close>

lemma validatePath_body:
  "(let resolved = path_resolve (workspaceRoot sm) filePath in
      if \<not> prefix (workspaceRoot sm @ sep) resolved \<and> resolved \<noteq> workspaceRoot sm
        then Some (Inl WORKSPACE_ESCAPE)
      else if sublist ''..'' filePath \<or> sublist ''./'' filePath
              \<or> sublist [CHR ''.'', bslash] filePath
        then Some (Inl PATH_TRAVERSAL)
      else if list_ex (\<lambda>systemPath. prefix systemPath resolved) SYSTEM_PATHS
        then Some (Inl SYSTEM_PATH)
      else if list_ex (\<lambda>pattern. pattern resolved) SENSITIVE_PATTERNS
        then Some (Inl SENSITIVE_FILE)
      else if (case allowedSubdirectories sm of
                 None \<Rightarrow> False
               | Some allowedSet \<Rightarrow> allowedSet \<noteq> [] \<and>
                   \<not> list_ex (\<lambda>allowed. prefix (allowed @ sep) resolved \<or> resolved = allowed)
                        allowedSet)
        then Some (Inl SUBDIR_RESTRICTION)
      else if list_ex (\<lambda>blocked. prefix blocked resolved) (blockedPaths sm)
        then Some (Inl BLOCKED_PATH)
      else if list_ex (\<lambda>pattern. pattern resolved) (blockedPatterns sm)
        then Some (Inl BLOCKED_PATTERN)
      else if readOnly (config sm) \<and> (operation = Write \<or> operation = Delete)
        then Some (Inl READ_ONLY)
      else if existsSync fs resolved
        then (case lstatSync fs resolved of
                Some (Symlink target) \<Rightarrow>
                  Option.bind
                    (f sm fs (path_resolve (dirname resolved) target) operation)
                    (\<lambda>r. case r of Inl e \<Rightarrow> Some (Inl e) | Inr v \<Rightarrow> Some (Inr resolved))
              | _ \<Rightarrow> Some (Inr resolved))
      else Some (Inr resolved))
   = (case validatePath_step sm fs filePath operation of
        Return r \<Rightarrow> Some r
      | Follow resolved next \<Rightarrow>
          Option.bind (f sm fs next operation)
            (\<lambda>r. case r of Inl e \<Rightarrow> Some (Inl e) | Inr v \<Rightarrow> Some (Inr resolved)))"
  apply (simp add: validatePath_step_def Let_def
      if_distrib [where f = "case_vp_step a b" for a b]
      option.case_distrib [where h = "case_vp_step a b" for a b]
      node.case_distrib [where h = "case_vp_step a b" for a b]
      split del: if_split cong: if_cong)
  apply (simp split: option.split node.split split del: if_split cong: if_cong)
  done

lemma validatePath_unfold:
  "validatePath sm fs filePath operation =
     (case validatePath_step sm fs filePath operation of
        Return r \<Rightarrow> Some r
      | Follow resolved next \<Rightarrow>
          Option.bind (validatePath sm fs next operation)
            (\<lambda>r. case r of Inl e \<Rightarrow> Some (Inl e) | Inr v \<Rightarrow> Some (Inr resolved)))"
  by (subst validatePath.simps) (rule validatePath_body)

lemma validatePath_within_sound:
  "validatePath_within n sm fs filePath operation = Some r
     \<Longrightarrow> validatePath sm fs filePath operation = Some r"
proof (induction n arbitrary: filePath r)
  case 0
  then show ?case by simp
next
  case (Suc n)
  show ?case
  proof (cases "validatePath_step sm fs filePath operation")
    case (Return x)
    with Suc.prems show ?thesis by (simp add: validatePath_unfold)
  next
    case (Follow resolved nxt)
    with Suc.prems obtain r' where
      w: "validatePath_within n sm fs nxt operation = Some r'"
      and r: "(case r' of Inl e \<Rightarrow> Some (Inl e) | Inr v \<Rightarrow> Some (Inr resolved)) = Some r"
      by (auto simp: bind_eq_Some_conv)
    from Suc.IH [OF w] r Follow show ?thesis
      by (simp add: validatePath_unfold [of sm fs filePath])
  qed
qed

lemma validatePath_within_complete:
  assumes "validatePath sm fs filePath operation = Some r"
  shows "\<exists>n. validatePath_within n sm fs filePath operation = Some r"
proof (rule validatePath.raw_induct
    [where P = "\<lambda>sm fs filePath operation r.
                  \<exists>n. validatePath_within n sm fs filePath operation = Some r", OF _ assms])
  fix vp sm fs filePath operation r
  assume IH: "\<And>sm fs filePath operation r. vp sm fs filePath operation = Some r
                \<Longrightarrow> \<exists>n. validatePath_within n sm fs filePath operation = Some r"
  assume "(let resolved = path_resolve (workspaceRoot sm) filePath in
      if \<not> prefix (workspaceRoot sm @ sep) resolved \<and> resolved \<noteq> workspaceRoot sm
        then Some (Inl WORKSPACE_ESCAPE)
      else if sublist ''..'' filePath \<or> sublist ''./'' filePath
              \<or> sublist [CHR ''.'', bslash] filePath
        then Some (Inl PATH_TRAVERSAL)
      else if list_ex (\<lambda>systemPath. prefix systemPath resolved) SYSTEM_PATHS
        then Some (Inl SYSTEM_PATH)
      else if list_ex (\<lambda>pattern. pattern resolved) SENSITIVE_PATTERNS
        then Some (Inl SENSITIVE_FILE)
      else if (case allowedSubdirectories sm of
                 None \<Rightarrow> False
               | Some allowedSet \<Rightarrow> allowedSet \<noteq> [] \<and>
                   \<not> list_ex (\<lambda>allowed. prefix (allowed @ sep) resolved \<or> resolved = allowed)
                        allowedSet)
        then Some (Inl SUBDIR_RESTRICTION)
      else if list_ex (\<lambda>blocked. prefix blocked resolved) (blockedPaths sm)
        then Some (Inl BLOCKED_PATH)
      else if list_ex (\<lambda>pattern. pattern resolved) (blockedPatterns sm)
        then Some (Inl BLOCKED_PATTERN)
      else if readOnly (config sm) \<and> (operation = Write \<or> operation = Delete)
        then Some (Inl READ_ONLY)
      else if existsSync fs resolved
        then (case lstatSync fs resolved of
                Some (Symlink target) \<Rightarrow>
                  Option.bind
                    (vp sm fs (path_resolve (dirname resolved) target) operation)
                    (\<lambda>r. case r of Inl e \<Rightarrow> Some (Inl e) | Inr v \<Rightarrow> Some (Inr resolved))
              | _ \<Rightarrow> Some (Inr resolved))
      else Some (Inr resolved)) = Some r"
  then have body: "(case validatePath_step sm fs filePath operation of
        Return r \<Rightarrow> Some r
      | Follow resolved next \<Rightarrow>
          Option.bind (vp sm fs next operation)
            (\<lambda>r. case r of Inl e \<Rightarrow> Some (Inl e) | Inr v \<Rightarrow> Some (Inr resolved))) = Some r"
    unfolding validatePath_body .
  show "\<exists>n. validatePath_within n sm fs filePath operation = Some r"
  proof (cases "validatePath_step sm fs filePath operation")
    case (Return x)
    with body have "validatePath_within (Suc 0) sm fs filePath operation = Some r" by simp
    then show ?thesis by blast
  next
    case (Follow resolved nxt)
    with body obtain r' where
      w: "vp sm fs nxt operation = Some r'"
      and r: "(case r' of Inl e \<Rightarrow> Some (Inl e) | Inr v \<Rightarrow> Some (Inr resolved)) = Some r"
      by (auto simp: bind_eq_Some_conv)
    from IH [OF w] obtain n where "validatePath_within n sm fs nxt operation = Some r'"
      by blast
    with r Follow have "validatePath_within (Suc n) sm fs filePath operation = Some r"
      by simp
    then show ?thesis by blast
  qed
qed

lemma validatePath_within_no_symlink_escape:
  "validatePath_within n sm fs filePath operation \<noteq> Some (Inl SYMLINK_ESCAPE)"
proof (induction n arbitrary: filePath)
  case 0
  then show ?case by simp
next
  case (Suc n)
  show ?case
  proof (cases "validatePath_step sm fs filePath operation")
    case (Return x)
    then have "x \<noteq> Inl SYMLINK_ESCAPE"
      by (auto simp: validatePath_step_def Let_def split: if_splits option.splits node.splits)
    with Return show ?thesis by simp
  next
    case (Follow resolved nxt)
    with Suc.IH [of nxt] show ?thesis
      by (auto simp: bind_eq_Some_conv split: sum.splits)
  qed
qed

lemma validatePath_step_Follow:
  assumes "validatePath_step sm fs filePath operation = Follow resolved nxt"
  shows "resolved = path_resolve (workspaceRoot sm) filePath
         \<and> existsSync fs resolved
         \<and> (\<exists>t. lstatSync fs resolved = Some (Symlink t) \<and> nxt = path_resolve (dirname resolved) t)"
  using assms
  by (auto simp: validatePath_step_def Let_def split: if_splits option.splits node.splits)

lemma linked_fs_steps:
  "validatePath_step example_manager linked_fs ''f'' Read = Follow ''/ws/f'' ''/ws/d/l''"
  "validatePath_step example_manager linked_fs ''/ws/d/l'' Read = Follow ''/ws/d/l'' ''/ws/f''"
  "validatePath_step example_manager linked_fs ''/ws/f'' Read = Follow ''/ws/f'' ''/ws/d/l''"
  by code_simp+

lemma linked_fs_loop:
  "validatePath_within n example_manager linked_fs ''/ws/d/l'' Read = None
   \<and> validatePath_within n example_manager linked_fs ''/ws/f'' Read = None"
  by (induction n) (simp_all add: linked_fs_steps)

text \<open>
  Claim C4 says that \<open>validatePath\<close> terminates on every input, its recursion on link
  targets being bounded, and that a chain beyond the bound is rejected. In the workspace
  \<open>linked_fs\<close> the call for \<open>f\<close> does not return: \<open>/ws/f\<close> exists and is a link to
  \<open>d/l\<close>, so the call recurses on \<open>/ws/d/l\<close>; that path exists (through the
  directory link \<open>d\<close>) and is a link to \<open>../f\<close>, which \<open>path.resolve\<close> takes, against
  \<open>/ws/d\<close>, back to \<open>/ws/f\<close>; and so on.
\<close>

theorem C4_counterexample:
  "validatePath example_manager linked_fs ''f'' Read = None"
proof (rule ccontr)
  assume "validatePath example_manager linked_fs ''f'' Read \<noteq> None"
  then obtain r where "validatePath example_manager linked_fs ''f'' Read = Some r"
    by blast
  from validatePath_within_complete [OF this] obtain n where
    n: "validatePath_within n example_manager linked_fs ''f'' Read = Some r"
    by blast
  show False
  proof (cases n)
    case 0
    with n show ?thesis by simp
  next
    case (Suc m)
    with n linked_fs_loop [of m] show ?thesis
      by (simp add: linked_fs_steps)
  qed
qed

text \<open>
  Claim C4, amended. \<open>validatePath\<close> has no depth counter and never rejects with
  \<open>SYMLINK_ESCAPE\<close>. A resolved path that \<open>existsSync\<close> does not find (as it finds
  neither a cycle of links nor a chain longer than the platform follows), or that is not
  a symbolic link, is decided by this call alone, which returns. Otherwise the call
  returns what the call on the link target returns; so \<open>validatePath\<close> returns a result
  exactly when some number of nested calls is enough to reach it.
\<close>

theorem C4_symlink_recursion:
  "validatePath sm fs filePath operation \<noteq> Some (Inl SYMLINK_ESCAPE)
   \<and> (\<not> existsSync fs (path_resolve (workspaceRoot sm) filePath)
        \<or> (\<forall>t. lstatSync fs (path_resolve (workspaceRoot sm) filePath) \<noteq> Some (Symlink t))
       \<longrightarrow> validatePath sm fs filePath operation \<noteq> None
           \<and> validatePath sm fs filePath operation
               = validatePath_within 1 sm fs filePath operation)
   \<and> (\<forall>r. validatePath sm fs filePath operation = Some r
            \<longleftrightarrow> (\<exists>n. validatePath_within n sm fs filePath operation = Some r))"
proof (intro conjI impI allI)
  show "validatePath sm fs filePath operation \<noteq> Some (Inl SYMLINK_ESCAPE)"
    using validatePath_within_complete [of sm fs filePath operation "Inl SYMLINK_ESCAPE"]
      validatePath_within_no_symlink_escape [of _ sm fs filePath operation]
    by blast
next
  assume a: "\<not> existsSync fs (path_resolve (workspaceRoot sm) filePath)
        \<or> (\<forall>t. lstatSync fs (path_resolve (workspaceRoot sm) filePath) \<noteq> Some (Symlink t))"
  obtain r where r: "validatePath_step sm fs filePath operation = Return r"
  proof (cases "validatePath_step sm fs filePath operation")
    case (Return x)
    then show ?thesis using that by blast
  next
    case (Follow resolved nxt)
    from validatePath_step_Follow [OF this] a show ?thesis by blast
  qed
  then show "validatePath sm fs filePath operation \<noteq> None"
    by (simp add: validatePath_unfold)
  from r show "validatePath sm fs filePath operation
               = validatePath_within 1 sm fs filePath operation"
    by (simp add: validatePath_unfold)
next
  fix r
  show "validatePath sm fs filePath operation = Some r
            \<longleftrightarrow> (\<exists>n. validatePath_within n sm fs filePath operation = Some r)"
    using validatePath_within_complete validatePath_within_sound by blast
qed

text \<open>A cycle of two links does not exist for \<open>existsSync\<close>: the link \<open>a\<close> is vetted
  without a recursive call.\<close>

theorem C4_witness:
  "\<not> existsSync cycle_fs (path_resolve (workspaceRoot example_manager) ''a'')
   \<and> lstatSync cycle_fs (path_resolve (workspaceRoot example_manager) ''a'') = Some (Symlink ''b'')
   \<and> validatePath example_manager cycle_fs ''a'' Read = Some (Inr ''/ws/a'')"
proof -
  have e: "\<not> existsSync cycle_fs (path_resolve (workspaceRoot example_manager) ''a'')"
    by code_simp
  have l: "lstatSync cycle_fs (path_resolve (workspaceRoot example_manager) ''a'') = Some (Symlink ''b'')"
    by code_simp
  have w: "validatePath_within 1 example_manager cycle_fs ''a'' Read = Some (Inr ''/ws/a'')"
    by code_simp
  from C4_symlink_recursion [of example_manager cycle_fs "''a''" Read] e
  have "validatePath example_manager cycle_fs ''a'' Read
          = validatePath_within 1 example_manager cycle_fs ''a'' Read"
    by blast
  with e l w show ?thesis by simp
qed

subsection \<open>The emergency mode\<close>

text \<open>No layer of \<open>validatePath\<close> reads the flag \<open>emergencyMode\<close>.\<close>

lemma validatePath_step_emergencyMode:
  "validatePath_step (sm\<lparr>emergencyMode := b\<rparr>) fs filePath operation
     = validatePath_step sm fs filePath operation"
  by (simp add: validatePath_step_def split del: if_split cong: if_cong option.case_cong)

lemma validatePath_within_emergencyMode:
  "validatePath_within n (sm\<lparr>emergencyMode := b\<rparr>) fs filePath operation
     = validatePath_within n sm fs filePath operation"
  by (induction n arbitrary: filePath)
    (simp_all add: validatePath_step_emergencyMode cong: vp_step.case_cong)

lemma validatePath_emergencyMode:
  "validatePath (sm\<lparr>emergencyMode := b\<rparr>) fs filePath operation
     = validatePath sm fs filePath operation"
proof (cases "validatePath sm fs filePath operation")
  case None
  show ?thesis
  proof (cases "validatePath (sm\<lparr>emergencyMode := b\<rparr>) fs filePath operation")
    case inner: None
    with None show ?thesis by simp
  next
    case (Some r)
    from validatePath_within_complete [OF this] obtain n where
      "validatePath_within n sm fs filePath operation = Some r"
      by (auto simp: validatePath_within_emergencyMode)
    from validatePath_within_sound [OF this] None show ?thesis by simp
  qed
next
  case (Some r)
  from validatePath_within_complete [OF this] obtain n where
    "validatePath_within n (sm\<lparr>emergencyMode := b\<rparr>) fs filePath operation = Some r"
    by (auto simp: validatePath_within_emergencyMode)
  from validatePath_within_sound [OF this] Some show ?thesis by simp
qed

text \<open>
  Claim C2 says that after \<open>emergencyStop\<close> every \<open>validatePath\<close> call is rejected at
  once. \<open>emergencyStop\<close> only sets the flag \<open>emergencyMode\<close>, which \<open>validatePath\<close> of
  SecurityManager never reads: every call gives the same result with the emergency mode
  on as with it off, and with the emergency mode on \<open>a.txt\<close> is vetted for reading as
  before.
\<close>

theorem C2_emergency_stop_ignored:
  "validatePath (emergencyStop sm) fs filePath operation = validatePath sm fs filePath operation
   \<and> isEmergencyMode (emergencyStop example_manager)
   \<and> validatePath (emergencyStop example_manager) example_fs ''a.txt'' Read
       = Some (Inr ''/ws/a.txt'')"
proof -
  have "validatePath (emergencyStop example_manager) example_fs ''a.txt'' Read
       = Some (Inr ''/ws/a.txt'')"
    by code_simp
  then show ?thesis
    by (simp add: emergencyStop_def isEmergencyMode_def validatePath_emergencyMode)
qed

section \<open>Properties of recursiveSync\<close>

lemma dchild_dput:
  "dput d name c = Inr d' \<Longrightarrow> dchild d' x = (if x = name then Some c else dchild d x)"
  by (cases d) (auto simp: update_conv')

lemma recursiveSync_frame_step:
  "dchild (DDir m (AList.update name c es)) x = (if x = name then Some c else map_of es x)"
  by (simp add: update_conv')

text \<open>The loop writes only the entries whose names it is given.\<close>

lemma syncEntries_frame:
  assumes "syncEntries clock pats source es d acc k = Inr (d', acc', k')"
    and "x \<notin> fst ` set es"
  shows "dchild d' x = dchild d x"
  using assms
proof (induction es arbitrary: d acc k)
  case Nil
  then show ?case by simp
next
  case (Cons a es)
  obtain name entry where a: "a = (name, entry)" by (cases a)
  from Cons.prems(2) a have nx: "x \<noteq> name" and xs: "x \<notin> fst ` set es" by auto
  show ?case
  proof (cases "shouldExclude (path_join source name) pats")
    case True
    with Cons.prems(1) a Cons.IH [OF _ xs] show ?thesis by simp
  next
    case False
    show ?thesis
    proof (cases entry)
      case (File content sm)
      with Cons.prems(1) a False nx Cons.IH [OF _ xs] show ?thesis
        by (auto simp: dchild_dput split: option.splits dnode.splits if_splits sum.splits)
    next
      case (Dir dm sub)
      with Cons.prems(1) a False nx Cons.IH [OF _ xs] show ?thesis
        by (auto simp: update_conv' split: dnode.splits sum.splits prod.splits)
    next
      case (Symlink t)
      with Cons.prems(1) a False Cons.IH [OF _ xs] show ?thesis by simp
    qed
  qed
qed


lemma up_to_date_frame:
  assumes "\<And>x. x \<in> fst ` set es \<Longrightarrow> dchild d' x = dchild d x"
  shows "up_to_date pats source es d' = up_to_date pats source es d"
  using assms by (induction es) auto

text \<open>A successful run leaves the destination up to date, when no source file is dated
  later than the clock reads.\<close>

lemma syncEntries_up_to_date:
  assumes "syncEntries clock pats source es d acc k = Inr (d', acc', k')"
    and "distinct_names es" and "\<forall>j. mtimes_upto (clock j) es"
  shows "up_to_date pats source es d'"
  using assms
proof (induction es arbitrary: source d acc k d' acc' k'
    rule: measure_induct_rule [where f = "size_list (size_prod (\<lambda>s. 0) size)"])
  case (less es)
  show ?case
  proof (cases es)
    case Nil
    then show ?thesis by simp
  next
    case (Cons a rest)
    obtain name entry where a: "a = (name, entry)" by (cases a)
    note es = Cons [unfolded a]
    have small: "size_list (size_prod (\<lambda>s. 0) size) rest < size_list (size_prod (\<lambda>s. 0) size) es"
      by (simp add: es)
    have dn: "name \<notin> fst ` set rest" "distinct_names rest" "distinct_names_node entry"
      using less.prems(2) by (simp_all add: es)
    have mt: "\<forall>j. mtimes_upto (clock j) rest" "\<forall>j. mtimes_upto_node (clock j) entry"
      using less.prems(3) by (simp_all add: es)
    note IH = less.IH [OF small _ dn(2) mt(1)]
    text \<open>What remains to be shown once the rest of the loop has run from \<open>d1\<close>.\<close>
    have finish: "up_to_date pats source es d'"
      if run: "syncEntries clock pats source rest d1 acc1 k1 = Inr (d', acc', k')"
        and head: "shouldExclude (path_join source name) pats
                   \<or> up_to_date_entry pats (path_join source name) entry (dchild d1 name)"
      for d1 acc1 k1
    proof -
      have "dchild d' name = dchild d1 name"
        by (rule syncEntries_frame [OF run dn(1)])
      with head IH [OF run] show ?thesis by (simp add: es)
    qed
    show ?thesis
    proof (cases "shouldExclude (path_join source name) pats")
      case True
      with less.prems(1) have
        run: "syncEntries clock pats source rest d acc k = Inr (d', acc', k')"
        by (simp add: es)
      show ?thesis
        by (rule finish [OF run]) (simp add: True)
    next
      case False
      show ?thesis
      proof (cases entry)
        case (Symlink t)
        with less.prems(1) False have
          run: "syncEntries clock pats source rest d acc k = Inr (d', acc', k')"
          by (simp add: es)
        show ?thesis
          by (rule finish [OF run]) (simp add: Symlink)
      next
        case (File content sm)
        have bound: "sm \<le> clock k" using mt(2) File by simp
        show ?thesis
        proof (cases "dchild d name")
          case None
          with less.prems(1) False File obtain d1 where
            p: "dput d name (DFile content (clock k)) = Inr d1"
            and run: "syncEntries clock pats source rest d1
                        (acc\<lparr>filesCopied := filesCopied acc + 1,
                             bytesTransferred := bytesTransferred acc + length content\<rparr>) (Suc k)
                      = Inr (d', acc', k')"
            by (auto simp: es split: sum.splits)
          show ?thesis
            by (rule finish [OF run]) (simp add: File dchild_dput [OF p] bound)
        next
          case (Some c)
          show ?thesis
          proof (cases "sm \<le> dmtime c")
            case True
            with less.prems(1) False File Some have
              run: "syncEntries clock pats source rest d (acc\<lparr>filesSkipped := filesSkipped acc + 1\<rparr>) k
                      = Inr (d', acc', k')"
              by (cases c) (auto simp: es)
            show ?thesis
              by (rule finish [OF run]) (simp add: File Some True)
          next
            case older: False
            with less.prems(1) False File Some obtain d1 where
              p: "dput d name (DFile content (clock k)) = Inr d1"
              and run: "syncEntries clock pats source rest d1
                          (acc\<lparr>filesCopied := filesCopied acc + 1,
                               bytesTransferred := bytesTransferred acc + length content\<rparr>) (Suc k)
                        = Inr (d', acc', k')"
              by (cases c) (auto simp: es split: sum.splits)
            show ?thesis
              by (rule finish [OF run]) (simp add: File dchild_dput [OF p] bound)
          qed
        qed
      next
        case (Dir dm sub)
        from less.prems(1) False Dir obtain m es0 c' res k1 where
          d: "d = DDir m es0"
          and sub: "recursiveSync clock pats (path_join source name) sub (map_of es0 name) k
                      = Inr (c', res, k1)"
          and run: "syncEntries clock pats source rest (DDir m (AList.update name c' es0))
                      \<lparr> filesCopied = filesCopied acc + filesCopied res,
                        filesSkipped = filesSkipped acc + filesSkipped res,
                        bytesTransferred = bytesTransferred acc + bytesTransferred res \<rparr> k1
                    = Inr (d', acc', k')"
          by (auto simp: es split: dnode.splits sum.splits prod.splits)
        have smaller: "size_list (size_prod (\<lambda>s. 0) size) sub < size_list (size_prod (\<lambda>s. 0) size) es"
          by (simp add: es Dir)
        have subd: "distinct_names sub" and subm: "\<forall>j. mtimes_upto (clock j) sub"
          using dn(3) mt(2) Dir by simp_all
        from sub obtain d0 a0 k0 where
          "syncEntries clock pats (path_join source name) sub d0 a0 k0 = Inr (c', res, k1)"
          by (auto split: option.splits)
        from less.IH [OF smaller this subd subm]
        have "up_to_date pats (path_join source name) sub c'" .
        then show ?thesis
          by (intro finish [OF run]) (simp add: Dir update_conv')
      qed
    qed
  qed
qed

text \<open>On a destination that is up to date, the loop copies nothing and changes nothing.\<close>

lemma syncEntries_nothing_to_copy:
  assumes "up_to_date pats source es d"
  shows "\<exists>acc'. syncEntries clock pats source es d acc k = Inr (d, acc', k)
           \<and> filesCopied acc' = filesCopied acc \<and> bytesTransferred acc' = bytesTransferred acc"
  using assms
proof (induction es arbitrary: source d acc
    rule: measure_induct_rule [where f = "size_list (size_prod (\<lambda>s. 0) size)"])
  case (less es)
  show ?case
  proof (cases es)
    case Nil
    then show ?thesis by simp
  next
    case (Cons a rest)
    obtain name entry where a: "a = (name, entry)" by (cases a)
    note es = Cons [unfolded a]
    have small: "size_list (size_prod (\<lambda>s. 0) size) rest < size_list (size_prod (\<lambda>s. 0) size) es"
      by (simp add: es)
    have rest: "up_to_date pats source rest d"
      using less.prems by (simp add: es)
    note IH = less.IH [OF small rest]
    show ?thesis
    proof (cases "shouldExclude (path_join source name) pats")
      case True
      with IH [of acc] show ?thesis by (simp add: es)
    next
      case False
      with less.prems have head: "up_to_date_entry pats (path_join source name) entry (dchild d name)"
        by (simp add: es)
      show ?thesis
      proof (cases entry)
        case (Symlink t)
        with IH [of acc] False show ?thesis by (simp add: es)
      next
        case (File content sm)
        with head obtain c where c: "dchild d name = Some c" and le: "sm \<le> dmtime c"
          by (auto split: option.splits)
        from IH [of "acc\<lparr>filesSkipped := filesSkipped acc + 1\<rparr>"] False File c le
        show ?thesis
          by (cases c) (simp_all add: es)
      next
        case (Dir dm sub)
        with head obtain c where c: "dchild d name = Some c"
          and up: "up_to_date pats (path_join source name) sub c"
          by (auto split: option.splits)
        from c obtain m es0 where d: "d = DDir m es0" and m: "map_of es0 name = Some c"
          by (cases d) auto
        have smaller: "size_list (size_prod (\<lambda>s. 0) size) sub < size_list (size_prod (\<lambda>s. 0) size) es"
          by (simp add: es Dir)
        from less.IH [OF smaller up, of "\<lparr> filesCopied = 0, filesSkipped = 0, bytesTransferred = 0 \<rparr>"]
        obtain res where
          sub: "recursiveSync clock pats (path_join source name) sub (Some c) k = Inr (c, res, k)"
          and z: "filesCopied res = 0" "bytesTransferred res = 0"
          by auto
        have same: "AList.update name c es0 = es0"
          by (rule update_triv [OF m])
        from IH [of "\<lparr> filesCopied = filesCopied acc + filesCopied res,
                       filesSkipped = filesSkipped acc + filesSkipped res,
                       bytesTransferred = bytesTransferred acc + bytesTransferred res \<rparr>"]
        show ?thesis
          using False Dir sub z same by (simp add: es d m)
      qed
    qed
  qed
qed

text \<open>
  Claim C8, amended. Let a first \<open>recursiveSync\<close> of a source directory into a
  destination return normally, and let no source file carry a modification time later
  than the clock reads while that run writes. Then a second run on the same source and
  the destination that the first run left, at any later clock, copies no file, transfers
  no byte and leaves the destination as it is.
\<close>

theorem C8_second_sync_copies_nothing:
  assumes first: "recursiveSync clock exclusionPatterns source srcEntries destination k
                    = Inr (d1, result1, k1)"
    and names: "distinct_names srcEntries"
    and dated: "\<forall>j. mtimes_upto (clock j) srcEntries"
  shows "\<exists>result2. recursiveSync clock2 exclusionPatterns source srcEntries (Some d1) k2
                      = Inr (d1, result2, k2)
           \<and> filesCopied result2 = 0 \<and> bytesTransferred result2 = 0"
proof -
  from first obtain d0 a0 k0 where
    "syncEntries clock exclusionPatterns source srcEntries d0 a0 k0 = Inr (d1, result1, k1)"
    by (auto split: option.splits)
  from syncEntries_up_to_date [OF this names dated]
  have "up_to_date exclusionPatterns source srcEntries d1" .
  from syncEntries_nothing_to_copy [OF this,
      of clock2 "\<lparr> filesCopied = 0, filesSkipped = 0, bytesTransferred = 0 \<rparr>" k2]
  show ?thesis by auto
qed

text \<open>The example source is synced into a missing destination at time 1000: two files
  are copied; the second run copies none.\<close>

theorem C8_witness:
  "recursiveSync clock_1000 [] ''/ws/src'' example_source None 0
     = Inr (DDir 1000 [(''a.txt'', DFile ''alpha'' 1000),
                       (''sub'', DDir 1000 [(''b.txt'', DFile ''beta'' 1000)])],
            \<lparr> filesCopied = 2, filesSkipped = 0, bytesTransferred = 9 \<rparr>, 4)
   \<and> distinct_names example_source
   \<and> (\<forall>j. mtimes_upto (clock_1000 j) example_source)
   \<and> (\<exists>result2. recursiveSync clock_60 [] ''/ws/src'' example_source
                     (Some (DDir 1000 [(''a.txt'', DFile ''alpha'' 1000),
                                       (''sub'', DDir 1000 [(''b.txt'', DFile ''beta'' 1000)])])) 0
                   = Inr (DDir 1000 [(''a.txt'', DFile ''alpha'' 1000),
                                     (''sub'', DDir 1000 [(''b.txt'', DFile ''beta'' 1000)])],
                          result2, 0)
                 \<and> filesCopied result2 = 0 \<and> bytesTransferred result2 = 0)"
proof -
  have first: "recursiveSync clock_1000 [] ''/ws/src'' example_source None 0
     = Inr (DDir 1000 [(''a.txt'', DFile ''alpha'' 1000),
                       (''sub'', DDir 1000 [(''b.txt'', DFile ''beta'' 1000)])],
            \<lparr> filesCopied = 2, filesSkipped = 0, bytesTransferred = 9 \<rparr>, 4)"
    by (simp add: example_source_def clock_1000_def shouldExclude_def)
  have names: "distinct_names example_source"
    by (simp add: example_source_def)
  have dated: "\<forall>j. mtimes_upto (clock_1000 j) example_source"
    by (simp add: example_source_def clock_1000_def)
  from C8_second_sync_copies_nothing [OF first names dated, of clock_60 0] first names dated
  show ?thesis by blast
qed

text \<open>
  Claim C8 says that a second sync copies nothing whenever no source modification time
  has advanced in between. The copy is stamped with the time of copying, not with the
  time of the source: with \<open>a.txt\<close> dated 100 and a clock that reads 60, the first run
  leaves a copy dated 60, and the second run, finding the source newer, copies it again.
\<close>

theorem C8_counterexample:
  "recursiveSync clock_60 [] ''/ws/src'' example_source None 0
     = Inr (DDir 60 [(''a.txt'', DFile ''alpha'' 60), (''sub'', DDir 60 [(''b.txt'', DFile ''beta'' 60)])],
            \<lparr> filesCopied = 2, filesSkipped = 0, bytesTransferred = 9 \<rparr>, 4)
   \<and> recursiveSync clock_60 [] ''/ws/src'' example_source
        (Some (DDir 60 [(''a.txt'', DFile ''alpha'' 60), (''sub'', DDir 60 [(''b.txt'', DFile ''beta'' 60)])])) 4
     = Inr (DDir 60 [(''a.txt'', DFile ''alpha'' 60), (''sub'', DDir 60 [(''b.txt'', DFile ''beta'' 60)])],
            \<lparr> filesCopied = 1, filesSkipped = 1, bytesTransferred = 5 \<rparr>, 5)"
  by (simp add: example_source_def clock_60_def shouldExclude_def)

section \<open>The rollback of BatchOperationManager\<close>

text \<open>
  Claim C3 says that after an atomic batch has failed, every operation that had run is
  undone: for a move onto an existing destination, the source has its content back and
  the destination has the content it had before. In the example the workspace holds
  \<open>a.txt\<close> (alpha) and \<open>b.txt\<close> (beta); the batch moves \<open>a.txt\<close> onto \<open>b.txt\<close> and
  then fails on deleting \<open>a.txt\<close>, which is no longer there. The rollback of the move
  first removes the moved file from the destination and puts the backup there, and then
  renames the destination, now the backup, to the source: \<open>a.txt\<close> ends with the content
  beta, \<open>b.txt\<close> is missing, and the content alpha is lost.
\<close>

theorem C3_move_rollback_loses_source:
  "statSync example_fs ''/ws/a.txt'' = Some (File ''alpha'' 10)
   \<and> statSync example_fs ''/ws/b.txt'' = Some (File ''beta'' 20)
   \<and> executeBatch example_manager example_fs 10 clock_5 example_batch True
       = Some (Inl (BATCH_FAILED (Fs ENOENT)),
               Dir 0 [(''ws'', Dir 0 [(''a.txt'', File ''beta'' 20)]),
                      (''etc'', Dir 0 [(''passwd'', File ''root'' 0)])])
   \<and> statSync (Dir 0 [(''ws'', Dir 0 [(''a.txt'', File ''beta'' 20)]),
                      (''etc'', Dir 0 [(''passwd'', File ''root'' 0)])]) ''/ws/a.txt''
       = Some (File ''beta'' 20)
   \<and> \<not> existsSync (Dir 0 [(''ws'', Dir 0 [(''a.txt'', File ''beta'' 20)]),
                           (''etc'', Dir 0 [(''passwd'', File ''root'' 0)])]) ''/ws/b.txt''"
  by code_simp

end
